theory Spec2Isabelle
  imports
    Main
    "HOL-Library.Char_ord"
    "HOL-Library.List_Lexorder"
    "HOL-Library.Option_ord"
    "HOL-Library.Multiset"
begin

section \<open>The store: schema.sql\<close>

text \<open>
  The two tables of \<^verbatim>\<open>schema.sql\<close>. A table is the list of its rows in insertion order.
  Timestamps are \<^verbatim>\<open>CURRENT_TIMESTAMP\<close> values; they are compared only with each other, so a
  timestamp is modelled as the number of seconds it denotes (the fixed-width text form
  \<^verbatim>\<open>YYYY-MM-DD HH:MM:SS\<close> has the same order). The handlers never bind a timestamp column,
  so it always holds the default and is never \<^verbatim>\<open>NULL\<close>. The four nullable text
  columns of \<^verbatim>\<open>analytics\<close> are \<open>string option\<close>, \<open>None\<close> being \<^verbatim>\<open>NULL\<close>.
\<close>

type_synonym instant = nat

record url_row =
  url_id :: string
  original_url :: string
  created_at :: instant

record click_row =
  click_id :: nat
  short_id :: string
  ip :: "string option"
  user_agent :: "string option"
  country_code :: "string option"
  referrer :: "string option"
  timestamp :: instant

text \<open>Sort direction spliced into \<^verbatim>\<open>ORDER BY last_clicked ${sort}\<close>.\<close>

datatype sort_dir = ASC | DESC

text \<open>
  The statements the handlers prepare, with their bound parameters. The store keeps a
  journal of the statements it has received, so that "no store access" is a property of
  the state.
\<close>

datatype stmt =
    SelectIdById string
  | SelectIdByOriginalUrl string
  | InsertUrl string string
  | CountDistinctShortId
  | SelectSummary sort_dir "int option" "int option"
  | DeleteBatch "string list"
  | SelectOriginalUrlById string
  | SelectEvents string
  | InsertClick string string string string string

record db =
  urls :: "url_row list"
  analytics :: "click_row list"
  analytics_seq :: nat
  journal :: "stmt list"

definition issue :: "stmt \<Rightarrow> db \<Rightarrow> db" where
  "issue s d = d\<lparr>journal := journal d @ [s]\<rparr>"

text \<open>
  \<^verbatim>\<open>urls.id\<close> is the primary key and \<^verbatim>\<open>analytics.id\<close> an autoincrement key:
  the states the store can be in hold no two rows with the same key, and the sequence
  counter is at least every key handed out.
\<close>

definition wf_db :: "db \<Rightarrow> bool" where
  "wf_db d \<longleftrightarrow>
     distinct (map url_id (urls d)) \<and>
     distinct (map click_id (analytics d)) \<and>
     list_all (\<lambda>a. click_id a \<le> analytics_seq d) (analytics d)"

section \<open>Errors and platform values\<close>

text \<open>The error kinds, by the HTTP status the handler answers with.\<close>

datatype error = InvalidInput | Unauthorized | Conflict | NotFound | Internal

fun status :: "error \<Rightarrow> nat" where
  "status InvalidInput = 400"
| "status Unauthorized = 401"
| "status NotFound = 404"
| "status Conflict = 409"
| "status Internal = 500"

text \<open>What the store raises. A raise inside \<^verbatim>\<open>try\<close> is caught; elsewhere it escapes the
  handler and the framework answers 500.\<close>

datatype store_error = UniqueViolation | DatatypeMismatch | BatchAborted

text \<open>
  JavaScript truthiness of an optional string: \<^verbatim>\<open>undefined\<close> and the empty string are
  falsy. \<open>present v\<close> is the value when it is truthy.
\<close>

fun present :: "string option \<Rightarrow> string option" where
  "present None = None"
| "present (Some s) = (if s = [] then None else Some s)"

text \<open>\<^verbatim>\<open>x || d\<close> on an optional string.\<close>

fun or_else :: "string option \<Rightarrow> string \<Rightarrow> string" where
  "or_else None d = d"
| "or_else (Some s) d = (if s = [] then d else s)"

section \<open>Store primitives used by \<^verbatim>\<open>POST /create\<close>\<close>

text \<open>
  \<^verbatim>\<open>SELECT id FROM urls WHERE id = ?\<close> and \<^verbatim>\<open>SELECT id FROM urls WHERE original_url = ?\<close>,
  each read with \<^verbatim>\<open>.first()\<close>: the first matching row or none. With several matches SQL
  leaves the choice to the engine; the model takes the oldest row.
\<close>

definition select_id_by_id :: "string \<Rightarrow> db \<Rightarrow> string option \<times> db" where
  "select_id_by_id i d =
     (map_option url_id (find (\<lambda>u. url_id u = i) (urls d)), issue (SelectIdById i) d)"

definition select_id_by_original_url :: "string \<Rightarrow> db \<Rightarrow> string option \<times> db" where
  "select_id_by_original_url u d =
     (map_option url_id (find (\<lambda>r. original_url r = u) (urls d)),
      issue (SelectIdByOriginalUrl u) d)"

text \<open>
  \<^verbatim>\<open>INSERT INTO urls (id, original_url) VALUES (?, ?)\<close>: the primary key rejects an id
  that is already there; otherwise the row is appended with \<^verbatim>\<open>created_at\<close> defaulting to
  the current time.
\<close>

definition insert_url :: "string \<Rightarrow> string \<Rightarrow> instant \<Rightarrow> db \<Rightarrow> (store_error + unit) \<times> db" where
  "insert_url i u now d =
     (let d1 = issue (InsertUrl i u) d in
      if i \<in> set (map url_id (urls d)) then (Inl UniqueViolation, d1)
      else (Inr (), d1\<lparr>urls := urls d @ [\<lparr>url_id = i, original_url = u, created_at = now\<rparr>]\<rparr>))"

section \<open>\<^verbatim>\<open>POST /create\<close>\<close>

text \<open>
  What the handler's first statement, \<^verbatim>\<open>const { url, custom_id } = await c.req.json()\<close>,
  meets: a body that is absent or not JSON (the call throws), the JSON value \<^verbatim>\<open>null\<close>
  (the destructuring throws), or any other JSON value, whose properties \<^verbatim>\<open>url\<close> and
  \<^verbatim>\<open>custom_id\<close> are then read. The statement is not inside a \<^verbatim>\<open>try\<close>: when it throws,
  the framework answers 500.
\<close>

datatype body_kind = Unreadable | JsonNull | JsonValue

text \<open>
  The request: its body, the two properties read from it (text, as the API describes
  them; they count only when the body is a \<open>JsonValue\<close>), and the origin of the request
  URL. What the handler takes from outside the repository is passed in: \<open>parses\<close> says
  whether \<^verbatim>\<open>new URL(url)\<close> returns (rather than throws), \<open>fresh\<close> is what \<^verbatim>\<open>nanoid()\<close>
  returns in this call, \<open>now\<close> the store's clock.
\<close>

record create_req =
  body :: body_kind
  url :: "string option"
  custom_id :: "string option"
  origin :: string

record create_resp =
  short_url :: string
  existing :: bool

definition isValidUrl :: "(string \<Rightarrow> bool) \<Rightarrow> string \<Rightarrow> bool" where
  "isValidUrl parses u = (if parses u then True else False)"

text \<open>The \<^verbatim>\<open>try\<close> block: any failure of the insert is answered with 500.\<close>

definition create_insert :: "string \<Rightarrow> string \<Rightarrow> string \<Rightarrow> instant \<Rightarrow> db \<Rightarrow> (error + create_resp) \<times> db" where
  "create_insert i u org now d =
     (case insert_url i u now d of
        (Inr _, d1) \<Rightarrow> (Inr \<lparr>short_url = org @ ''/'' @ i, existing = False\<rparr>, d1)
      | (Inl err, d1) \<Rightarrow> (Inl Internal, d1))"

definition create :: "(string \<Rightarrow> bool) \<Rightarrow> string \<Rightarrow> instant \<Rightarrow> create_req \<Rightarrow> db \<Rightarrow> (error + create_resp) \<times> db" where
  "create parses fresh now rq d =
     (case body rq of
        Unreadable \<Rightarrow> (Inl Internal, d)
      | JsonNull \<Rightarrow> (Inl Internal, d)
      | JsonValue \<Rightarrow>
          (case present (url rq) of
             None \<Rightarrow> (Inl InvalidInput, d)
           | Some u \<Rightarrow>
               if \<not> isValidUrl parses u then (Inl InvalidInput, d)
               else
                 (case present (custom_id rq) of
                    Some c \<Rightarrow>
                      (case select_id_by_id c d of
                         (Some e, d1) \<Rightarrow> (Inl Conflict, d1)
                       | (None, d1) \<Rightarrow> create_insert c u (origin rq) now d1)
                  | None \<Rightarrow>
                      (case select_id_by_original_url u d of
                         (Some e, d1) \<Rightarrow>
                           (Inr \<lparr>short_url = origin rq @ ''/'' @ e, existing = True\<rparr>, d1)
                       | (None, d1) \<Rightarrow> create_insert fresh u (origin rq) now d1))))"

section \<open>\<^verbatim>\<open>GET /:id\<close>\<close>

text \<open>\<^verbatim>\<open>SELECT original_url FROM urls WHERE id = ?\<close>, read with \<^verbatim>\<open>.first()\<close>.\<close>

definition select_original_url :: "string \<Rightarrow> db \<Rightarrow> string option \<times> db" where
  "select_original_url i d =
     (map_option original_url (find (\<lambda>u. url_id u = i) (urls d)),
      issue (SelectOriginalUrlById i) d)"

text \<open>
  \<^verbatim>\<open>INSERT INTO analytics (short_id, ip, user_agent, country_code, referrer)\<close>: the key
  is the next of the autoincrement sequence (one more than the largest key ever used),
  the timestamp the current time.
\<close>

definition insert_click :: "string \<Rightarrow> string \<Rightarrow> string \<Rightarrow> string \<Rightarrow> string \<Rightarrow> instant \<Rightarrow> db \<Rightarrow> db" where
  "insert_click sid i ua cc rf now d =
     (let k = Suc (fold max (map click_id (analytics d)) (analytics_seq d));
          d1 = issue (InsertClick sid i ua cc rf) d
      in d1\<lparr>analytics := analytics d @
               [\<lparr>click_id = k, short_id = sid, ip = Some i, user_agent = Some ua,
                 country_code = Some cc, referrer = Some rf, timestamp = now\<rparr>],
             analytics_seq := k\<rparr>)"

text \<open>The path parameter and the four request headers the handler reads.\<close>

record redirect_req =
  param_id :: string
  cf_connecting_ip :: "string option"
  user_agent_header :: "string option"
  cf_ipcountry :: "string option"
  referer :: "string option"

text \<open>The answer \<open>Inr u\<close> is the 302 redirect to \<open>u\<close>.\<close>

definition redirect :: "instant \<Rightarrow> redirect_req \<Rightarrow> db \<Rightarrow> (error + string) \<times> db" where
  "redirect now rq d =
     (case select_original_url (param_id rq) d of
        (None, d1) \<Rightarrow> (Inl NotFound, d1)
      | (Some original, d1) \<Rightarrow>
          (Inr original,
           insert_click (param_id rq)
             (or_else (cf_connecting_ip rq) [])
             (or_else (user_agent_header rq) [])
             (or_else (cf_ipcountry rq) [])
             (or_else (referer rq) []) now d1))"

section \<open>The credential check of the analytics routes\<close>

definition startsWith :: "string \<Rightarrow> string \<Rightarrow> bool" where
  "startsWith s p = (take (length p) s = p)"

text \<open>\<^verbatim>\<open>s.split(c)\<close> for a one-character separator.\<close>

fun split_on :: "char \<Rightarrow> string \<Rightarrow> string list" where
  "split_on c [] = [[]]"
| "split_on c (x # xs) =
     (if x = c then [] # split_on c xs
      else (case split_on c xs of w # ws \<Rightarrow> (x # w) # ws | [] \<Rightarrow> [[x]]))"

text \<open>
  The header must be there, start with \<^verbatim>\<open>'Bearer '\<close>, and its second space-separated
  piece must equal the configured \<^verbatim>\<open>API_KEY\<close>; a missing second piece is \<^verbatim>\<open>undefined\<close>
  and equals no key.
\<close>

definition authorized :: "string \<Rightarrow> string option \<Rightarrow> bool" where
  "authorized api_key hdr =
     (case present hdr of
        None \<Rightarrow> False
      | Some h \<Rightarrow>
          if \<not> startsWith h ''Bearer '' then False
          else (case split_on CHR '' '' h of
                  a # k # rest \<Rightarrow> k = api_key
                | _ \<Rightarrow> False))"

section \<open>\<^verbatim>\<open>DELETE /analytics\<close>\<close>

text \<open>The two statements of the batch.\<close>

definition delete_analytics_in :: "string list \<Rightarrow> db \<Rightarrow> db" where
  "delete_analytics_in is d = d\<lparr>analytics := filter (\<lambda>a. short_id a \<notin> set is) (analytics d)\<rparr>"

definition delete_urls_in :: "string list \<Rightarrow> db \<Rightarrow> db" where
  "delete_urls_in is d = d\<lparr>urls := filter (\<lambda>u. url_id u \<notin> set is) (urls d)\<rparr>"

text \<open>
  \<^verbatim>\<open>DB.batch\<close> runs its statements in order inside one transaction. \<open>fault\<close> is the
  position of the statement at which the store fails, if it does: the statements before
  it have already run on the working copy \<open>w\<close>, which is then dropped.
\<close>

fun run_batch :: "nat option \<Rightarrow> (db \<Rightarrow> db) list \<Rightarrow> db \<Rightarrow> db option" where
  "run_batch fault [] w = Some w"
| "run_batch fault (s # ss) w =
     (if fault = Some 0 then None
      else run_batch (map_option (\<lambda>k. k - 1) fault) ss (s w))"

definition batch :: "nat option \<Rightarrow> (db \<Rightarrow> db) list \<Rightarrow> db \<Rightarrow> (store_error + unit) \<times> db" where
  "batch fault ss d =
     (case run_batch fault ss d of
        None \<Rightarrow> (Inl BatchAborted, d)
      | Some w \<Rightarrow> (Inr (), w))"

text \<open>The body of the request is a JSON value other than \<^verbatim>\<open>null\<close>; \<open>ids = None\<close> stands
  for one whose \<^verbatim>\<open>ids\<close> is missing or not an array.\<close>

record purge_req =
  purge_authorization :: "string option"
  ids :: "string list option"

text \<open>The answer \<open>Inr is\<close> is \<^verbatim>\<open>{success: true, ids}\<close>. The batch is not inside a
  \<^verbatim>\<open>try\<close>: when it raises, the framework answers 500.\<close>

definition purge :: "string \<Rightarrow> nat option \<Rightarrow> purge_req \<Rightarrow> db \<Rightarrow> (error + string list) \<times> db" where
  "purge api_key fault rq d =
     (if \<not> authorized api_key (purge_authorization rq) then (Inl Unauthorized, d)
      else
        (case ids rq of
           None \<Rightarrow> (Inl InvalidInput, d)
         | Some is \<Rightarrow>
             if length is = 0 then (Inl InvalidInput, d)
             else
               (case batch fault [delete_analytics_in is, delete_urls_in is]
                       (issue (DeleteBatch is) d) of
                  (Inl err, d1) \<Rightarrow> (Inl Internal, d1)
                | (Inr _, d1) \<Rightarrow> (Inr is, d1))))"

section \<open>\<^verbatim>\<open>GET /analytics/:id\<close>\<close>

text \<open>The five columns the detail query selects.\<close>

record event_view =
  ev_timestamp :: instant
  ev_ip :: "string option"
  ev_user_agent :: "string option"
  ev_referrer :: "string option"
  ev_country_code :: "string option"

definition view_of :: "click_row \<Rightarrow> event_view" where
  "view_of a = \<lparr>ev_timestamp = timestamp a, ev_ip = ip a, ev_user_agent = user_agent a,
               ev_referrer = referrer a, ev_country_code = country_code a\<rparr>"

text \<open>
  \<^verbatim>\<open>... FROM analytics WHERE short_id = ? ORDER BY timestamp DESC LIMIT 1000\<close>. Rows with
  equal timestamps come in an order SQL leaves open; the model puts the later-inserted
  first.
\<close>

definition select_events :: "string \<Rightarrow> db \<Rightarrow> event_view list \<times> db" where
  "select_events i d =
     (take 1000 (rev (sort_key ev_timestamp
        (map view_of (filter (\<lambda>a. short_id a = i) (analytics d))))),
      issue (SelectEvents i) d)"

record detail_req =
  detail_authorization :: "string option"
  detail_id :: string

record detail_resp =
  resp_id :: string
  resp_original_url :: "string option"
  resp_click_count :: nat
  resp_analytics :: "event_view list"

definition detail :: "string \<Rightarrow> detail_req \<Rightarrow> db \<Rightarrow> (error + detail_resp) \<times> db" where
  "detail api_key rq d =
     (if \<not> authorized api_key (detail_authorization rq) then (Inl Unauthorized, d)
      else
        (case select_original_url (detail_id rq) d of
           (urlResult, d1) \<Rightarrow>
             (case select_events (detail_id rq) d1 of
                (results, d2) \<Rightarrow>
                  (Inr \<lparr>resp_id = detail_id rq,
                        resp_original_url = present urlResult,
                        resp_click_count = length results,
                        resp_analytics = results\<rparr>, d2))))"

section \<open>\<^verbatim>\<open>GET /analytics\<close>\<close>

subsection \<open>Query parameters\<close>


text \<open>
  The built-in \<^verbatim>\<open>parseInt(s)\<close> without a radix, on ASCII text: leading white space is
  skipped, then an optional sign, then an optional \<^verbatim>\<open>0x\<close> (which selects base 16), then
  the longest run of digits of the base; no digit at all gives \<^verbatim>\<open>NaN\<close>.
\<close>

definition is_white :: "char \<Rightarrow> bool" where
  "is_white c = ((of_char c :: nat) \<in> {9, 10, 11, 12, 13, 32})"

definition digit_of :: "char \<Rightarrow> nat option" where
  "digit_of c =
     (let n = (of_char c :: nat) in
      if 48 \<le> n \<and> n \<le> 57 then Some (n - 48)
      else if 97 \<le> n \<and> n \<le> 122 then Some (n - 87)
      else if 65 \<le> n \<and> n \<le> 90 then Some (n - 55)
      else None)"

fun leading_digits :: "nat \<Rightarrow> string \<Rightarrow> nat list" where
  "leading_digits r [] = []"
| "leading_digits r (c # cs) =
     (case digit_of c of
        Some v \<Rightarrow> if v < r then v # leading_digits r cs else []
      | None \<Rightarrow> [])"

definition parseInt :: "string \<Rightarrow> int option" where
  "parseInt s =
     (let t = dropWhile is_white s;
          negative = (take 1 t = ''-'');
          t1 = (if take 1 t = ''-'' \<or> take 1 t = ''+'' then drop 1 t else t);
          hex = (take 2 t1 = ''0x'' \<or> take 2 t1 = ''0X'');
          r = (if hex then 16 else 10);
          ds = leading_digits r (if hex then drop 2 t1 else t1);
          n = fold (\<lambda>v acc. acc * r + v) ds 0
      in if ds = [] then None
         else Some (if negative then - int n else int n))"

text \<open>\<^verbatim>\<open>Math.max(a, x)\<close> and \<^verbatim>\<open>Math.min(x, b)\<close> with \<open>a\<close>, \<open>b\<close> literals: \<^verbatim>\<open>NaN\<close> stays.\<close>

definition js_max :: "int \<Rightarrow> int option \<Rightarrow> int option" where
  "js_max a x = map_option (max a) x"

definition js_min :: "int option \<Rightarrow> int \<Rightarrow> int option" where
  "js_min x b = map_option (\<lambda>v. min v b) x"

text \<open>
  \<^verbatim>\<open>toLowerCase\<close>, on the bytes of the text: the letters \<^verbatim>\<open>A\<close> to \<^verbatim>\<open>Z\<close> are lowered.
  No character outside ASCII lowers to \<^verbatim>\<open>a\<close>, \<^verbatim>\<open>s\<close> or \<^verbatim>\<open>c\<close>, so the comparison
  with \<^verbatim>\<open>'asc'\<close> below comes out as in the program for any text.
\<close>

definition lower_char :: "char \<Rightarrow> char" where
  "lower_char c =
     (let n = (of_char c :: nat) in if 65 \<le> n \<and> n \<le> 90 then char_of (n + 32) else c)"

definition toLowerCase :: "string \<Rightarrow> string" where
  "toLowerCase s = map lower_char s"

subsection \<open>The two queries\<close>

text \<open>The aggregates \<^verbatim>\<open>MAX\<close> and \<^verbatim>\<open>MIN\<close>: \<^verbatim>\<open>NULL\<close>s are skipped, and the result is
  \<^verbatim>\<open>NULL\<close> when nothing is left. Text is compared bytewise.\<close>

fun sql_max :: "'a::linorder option list \<Rightarrow> 'a option" where
  "sql_max [] = None"
| "sql_max (None # xs) = sql_max xs"
| "sql_max (Some x # xs) = (case sql_max xs of None \<Rightarrow> Some x | Some y \<Rightarrow> Some (max x y))"

fun sql_min :: "'a::linorder option list \<Rightarrow> 'a option" where
  "sql_min [] = None"
| "sql_min (None # xs) = sql_min xs"
| "sql_min (Some x # xs) = (case sql_min xs of None \<Rightarrow> Some x | Some y \<Rightarrow> Some (min x y))"

text \<open>\<^verbatim>\<open>SELECT COUNT(DISTINCT short_id) AS total FROM analytics\<close>.\<close>

definition count_distinct_short_id :: "db \<Rightarrow> nat \<times> db" where
  "count_distinct_short_id d =
     (length (remdups (map short_id (analytics d))), issue CountDistinctShortId d)"

record summary_row =
  row_short_id :: string
  row_original_url :: string
  click_count :: nat
  last_clicked :: "instant option"
  first_clicked :: "instant option"
  latest_referrer :: "string option"
  row_country_code :: "string option"

text \<open>\<^verbatim>\<open>FROM analytics AS a1 JOIN urls AS u ON a1.short_id = u.id\<close>: an inner join.\<close>

definition joined :: "db \<Rightarrow> (click_row \<times> url_row) list" where
  "joined d =
     concat (map (\<lambda>a1. map (Pair a1) (filter (\<lambda>u. short_id a1 = url_id u) (urls d)))
                 (analytics d))"

text \<open>\<^verbatim>\<open>GROUP BY a1.short_id, u.original_url\<close>: the key of a joined row, and the keys
  that occur.\<close>

definition group_key :: "click_row \<times> url_row \<Rightarrow> string \<times> string" where
  "group_key j = (short_id (fst j), original_url (snd j))"

definition group_keys :: "db \<Rightarrow> (string \<times> string) list" where
  "group_keys d = remdups (map group_key (joined d))"

text \<open>\<^verbatim>\<open>(SELECT MAX(timestamp) FROM analytics AS a2 WHERE a2.short_id = a1.short_id)\<close>.\<close>

definition max_timestamp_of :: "db \<Rightarrow> string \<Rightarrow> instant option" where
  "max_timestamp_of d sid =
     sql_max (map (\<lambda>a2. Some (timestamp a2)) (filter (\<lambda>a2. short_id a2 = sid) (analytics d)))"

text \<open>The select list, evaluated on the group of one key.\<close>

definition summary_of :: "db \<Rightarrow> string \<times> string \<Rightarrow> summary_row" where
  "summary_of d k =
     (let g = map fst (filter (\<lambda>j. group_key j = k) (joined d)) in
      \<lparr>row_short_id = fst k,
       row_original_url = snd k,
       click_count = length g,
       last_clicked = sql_max (map (\<lambda>a1. Some (timestamp a1)) g),
       first_clicked = sql_min (map (\<lambda>a1. Some (timestamp a1)) g),
       latest_referrer =
         sql_max (map (\<lambda>a1. if Some (timestamp a1) = max_timestamp_of d (short_id a1)
                              then referrer a1 else None) g),
       row_country_code = sql_max (map country_code g)\<rparr>)"

definition summaries :: "db \<Rightarrow> summary_row list" where
  "summaries d = map (summary_of d) (group_keys d)"

text \<open>\<^verbatim>\<open>ORDER BY last_clicked ASC\<close> or \<^verbatim>\<open>DESC\<close>. The order among rows with the same
  \<^verbatim>\<open>last_clicked\<close> is left open by SQL; the model fixes one.\<close>

definition order_by_last_clicked :: "sort_dir \<Rightarrow> summary_row list \<Rightarrow> summary_row list" where
  "order_by_last_clicked dir rows =
     (case dir of
        ASC \<Rightarrow> sort_key last_clicked rows
      | DESC \<Rightarrow> rev (sort_key last_clicked rows))"

text \<open>
  The summary query with \<^verbatim>\<open>LIMIT ? OFFSET ?\<close> bound. A \<^verbatim>\<open>NaN\<close> reaches the store as
  \<^verbatim>\<open>NULL\<close>, which \<^verbatim>\<open>LIMIT\<close> and \<^verbatim>\<open>OFFSET\<close> refuse.
\<close>

definition select_summary :: "sort_dir \<Rightarrow> int option \<Rightarrow> int option \<Rightarrow> db \<Rightarrow> (store_error + summary_row list) \<times> db" where
  "select_summary dir lim off d =
     (let d1 = issue (SelectSummary dir lim off) d in
      case (lim, off) of
        (Some l, Some k) \<Rightarrow>
          (Inr (take (nat l) (drop (nat k) (order_by_last_clicked dir (summaries d)))), d1)
      | _ \<Rightarrow> (Inl DatatypeMismatch, d1))"

subsection \<open>The handler\<close>

record list_req =
  list_authorization :: "string option"
  page_param :: "string option"
  limit_param :: "string option"
  sort_param :: "string option"

record list_resp =
  resp_page :: int
  resp_limit :: int
  resp_sort :: sort_dir
  resp_total :: nat
  resp_data :: "summary_row list"

definition page_of :: "list_req \<Rightarrow> int option" where
  "page_of rq = js_max 1 (parseInt (or_else (page_param rq) ''1''))"

definition limit_of :: "list_req \<Rightarrow> int option" where
  "limit_of rq = js_max 1 (js_min (parseInt (or_else (limit_param rq) ''50'')) 500)"

definition sort_of :: "list_req \<Rightarrow> sort_dir" where
  "sort_of rq = (if toLowerCase (or_else (sort_param rq) ''desc'') = ''asc'' then ASC else DESC)"

definition offset_of :: "int option \<Rightarrow> int option \<Rightarrow> int option" where
  "offset_of page limit =
     (case (page, limit) of (Some p, Some l) \<Rightarrow> Some ((p - 1) * l) | _ \<Rightarrow> None)"

text \<open>The queries are not inside a \<^verbatim>\<open>try\<close>: when the store raises, the framework
  answers 500.\<close>

definition analytics_list :: "string \<Rightarrow> list_req \<Rightarrow> db \<Rightarrow> (error + list_resp) \<times> db" where
  "analytics_list api_key rq d =
     (if \<not> authorized api_key (list_authorization rq) then (Inl Unauthorized, d)
      else
        let page = page_of rq;
            limit = limit_of rq;
            direction = sort_of rq;
            offset = offset_of page limit
        in
          (case count_distinct_short_id d of
             (total_count, d1) \<Rightarrow>
               (case select_summary direction limit offset d1 of
                  (Inl err, d2) \<Rightarrow> (Inl Internal, d2)
                | (Inr results, d2) \<Rightarrow>
                    (case (page, limit) of
                       (Some p, Some l) \<Rightarrow>
                         (Inr \<lparr>resp_page = p, resp_limit = l, resp_sort = direction,
                               resp_total = total_count, resp_data = results\<rparr>, d2)
                     | _ \<Rightarrow> (Inl Internal, d2)))))"

section \<open>Notions the properties are stated with\<close>

text \<open>The stored records whose destination is \<open>u\<close>.\<close>

definition records_for :: "string \<Rightarrow> db \<Rightarrow> url_row list" where
  "records_for u d = filter (\<lambda>r. original_url r = u) (urls d)"

text \<open>The clicks stored for an identifier.\<close>

definition clicks_of :: "string \<Rightarrow> db \<Rightarrow> click_row list" where
  "clicks_of sid d = filter (\<lambda>a. short_id a = sid) (analytics d)"

text \<open>Those of them that carry the latest timestamp.\<close>

definition newest_clicks_of :: "string \<Rightarrow> db \<Rightarrow> click_row list" where
  "newest_clicks_of sid d =
     filter (\<lambda>a. timestamp a = Max (timestamp ` set (clicks_of sid d))) (clicks_of sid d)"

text \<open>Events newest first.\<close>

definition newest_first :: "event_view list \<Rightarrow> bool" where
  "newest_first vs = sorted_wrt (\<lambda>a b. ev_timestamp b \<le> ev_timestamp a) vs"


section \<open>Example values\<close>

text \<open>
  A stand-in for the URL parser in the examples: it agrees with the parser on the texts
  the examples pass to it.
\<close>

definition example_parses :: "string \<Rightarrow> bool" where
  "example_parses u = (take 8 u = ''https://'' \<and> 8 < length u)"

definition example_click :: "nat \<Rightarrow> string \<Rightarrow> string \<Rightarrow> string \<Rightarrow> instant \<Rightarrow> click_row" where
  "example_click k sid rf cc t =
     \<lparr>click_id = k, short_id = sid, ip = Some ''203.0.113.7'', user_agent = Some ''curl'',
      country_code = Some cc, referrer = Some rf, timestamp = t\<rparr>"

text \<open>Two short links with three clicks between them.\<close>

definition example_db :: db where
  "example_db =
     \<lparr>urls = [\<lparr>url_id = ''abc1234'', original_url = ''https://a.example'', created_at = 10\<rparr>,
              \<lparr>url_id = ''promo'', original_url = ''https://z.example'', created_at = 11\<rparr>],
      analytics = [example_click 1 ''abc1234'' ''https://r1.example'' ''US'' 100,
                   example_click 2 ''promo'' ''https://r2.example'' ''DE'' 150,
                   example_click 3 ''abc1234'' ''https://r3.example'' ''DE'' 200],
      analytics_seq = 3,
      journal = []\<rparr>"

text \<open>The store before anything is stored.\<close>

definition empty_db :: db where
  "empty_db = \<lparr>urls = [], analytics = [], analytics_seq = 0, journal = []\<rparr>"

text \<open>A create request with a JSON object as body, sent to \<^verbatim>\<open>https://sho.rt\<close>.\<close>

definition example_create :: "string \<Rightarrow> string option \<Rightarrow> create_req" where
  "example_create u c =
     \<lparr>body = JsonValue, url = Some u, custom_id = c, origin = ''https://sho.rt''\<rparr>"



text \<open>The store after two creates of the same destination under the custom ids
  \<^verbatim>\<open>spring\<close> and \<^verbatim>\<open>summer\<close>.\<close>

definition example_twins :: db where
  "example_twins =
     snd (create example_parses ''k3x9q0z'' 2 (example_create ''https://a.example'' (Some ''summer''))
       (snd (create example_parses ''k3x9q0z'' 1 (example_create ''https://a.example'' (Some ''spring''))
          empty_db)))"

text \<open>A redirect request with two of the four headers present.\<close>

definition example_redirect :: "string \<Rightarrow> redirect_req" where
  "example_redirect i =
     \<lparr>param_id = i, cf_connecting_ip = Some ''198.51.100.9'', user_agent_header = None,
      cf_ipcountry = Some ''IN'', referer = None\<rparr>"

text \<open>A purge request carrying the configured key \<^verbatim>\<open>s3cret\<close>.\<close>

definition example_purge :: "string list option \<Rightarrow> purge_req" where
  "example_purge is = \<lparr>purge_authorization = Some ''Bearer s3cret'', ids = is\<rparr>"

text \<open>
  The store when a redirect of \<^verbatim>\<open>promo\<close> has looked its record up, a purge of \<^verbatim>\<open>promo\<close>
  then runs, and the redirect writes its click afterwards.
\<close>

definition example_orphan :: db where
  "example_orphan =
     insert_click ''promo'' ''203.0.113.7'' ''curl'' ''FR'' [] 400
       (snd (purge ''s3cret'' None (example_purge (Some [''promo''])) example_db))"


text \<open>A detail request carrying the configured key.\<close>

definition example_detail :: "string \<Rightarrow> detail_req" where
  "example_detail i = \<lparr>detail_authorization = Some ''Bearer s3cret'', detail_id = i\<rparr>"

section \<open>Basic facts\<close>

lemma find_key_Some:
  "k \<in> set (map f xs) \<Longrightarrow> \<exists>r. find (\<lambda>r. f r = k) xs = Some r \<and> f r = k"
  by (induction xs) auto

lemma find_key_None:
  "k \<notin> set (map f xs) \<Longrightarrow> find (\<lambda>r. f r = k) xs = None"
  by (induction xs) auto

lemma urls_issue [simp]: "urls (issue s d) = urls d"
  by (simp add: issue_def)

lemma analytics_issue [simp]: "analytics (issue s d) = analytics d"
  by (simp add: issue_def)

lemma analytics_seq_issue [simp]: "analytics_seq (issue s d) = analytics_seq d"
  by (simp add: issue_def)

lemma journal_issue [simp]: "journal (issue s d) = journal d @ [s]"
  by (simp add: issue_def)

lemma find_SomeD: "find P xs = Some x \<Longrightarrow> x \<in> set xs \<and> P x"
  by (induction xs) (auto split: if_splits)

lemma example_authorized: "authorized ''s3cret'' (Some ''Bearer s3cret'')"
  by (simp add: authorized_def startsWith_def)

section \<open>Creating short links\<close>

lemma create_insert_taken:
  "i \<in> set (map url_id (urls d)) \<Longrightarrow>
   create_insert i u org now d = (Inl Internal, issue (InsertUrl i u) d)"
  by (simp add: create_insert_def insert_url_def Let_def)

lemma create_insert_free:
  "i \<notin> set (map url_id (urls d)) \<Longrightarrow>
   create_insert i u org now d =
     (Inr \<lparr>short_url = org @ ''/'' @ i, existing = False\<rparr>,
      (issue (InsertUrl i u) d)
        \<lparr>urls := urls d @ [\<lparr>url_id = i, original_url = u, created_at = now\<rparr>]\<rparr>)"
  by (simp add: create_insert_def insert_url_def Let_def)




text \<open>
  C7. A create request with a JSON body, a valid \<open>url\<close> and a custom id that a stored record already
  has is answered with \<open>Conflict\<close>. The only statement issued is the lookup by id: the
  lookup by destination and the insert are not issued, and both tables are unchanged, so
  the record that holds the id keeps its destination.
\<close>

theorem create_custom_id_in_use:
  assumes "body rq = JsonValue"
    and "present (url rq) = Some u" and "isValidUrl parses u"
    and "present (custom_id rq) = Some c"
    and "c \<in> set (map url_id (urls d))"
  shows "fst (create parses fresh now rq d) = Inl Conflict
       \<and> urls (snd (create parses fresh now rq d)) = urls d
       \<and> analytics (snd (create parses fresh now rq d)) = analytics d
       \<and> journal (snd (create parses fresh now rq d)) = journal d @ [SelectIdById c]"
proof -
  from find_key_Some [OF assms(5)]
  obtain r where "find (\<lambda>r. url_id r = c) (urls d) = Some r"
    by blast
  with assms(1-4) have "create parses fresh now rq d = (Inl Conflict, issue (SelectIdById c) d)"
    by (simp add: create_def isValidUrl_def select_id_by_id_def)
  then show ?thesis
    by simp
qed

theorem create_custom_id_in_use_witness:
  "fst (create example_parses ''k3x9q0z'' 20
          (example_create ''https://a.example'' (Some ''promo'')) example_db) = Inl Conflict
   \<and> urls (snd (create example_parses ''k3x9q0z'' 20
          (example_create ''https://a.example'' (Some ''promo'')) example_db)) = urls example_db
   \<and> journal (snd (create example_parses ''k3x9q0z'' 20
          (example_create ''https://a.example'' (Some ''promo'')) example_db))
        = [SelectIdById ''promo'']"
proof -
  have j: "body (example_create ''https://a.example'' (Some ''promo'')) = JsonValue"
    by (simp add: example_create_def)
  have a: "present (url (example_create ''https://a.example'' (Some ''promo'')))
             = Some ''https://a.example''"
    by (simp add: example_create_def)
  have b: "isValidUrl example_parses ''https://a.example''"
    by (simp add: isValidUrl_def example_parses_def)
  have c: "present (custom_id (example_create ''https://a.example'' (Some ''promo'')))
             = Some ''promo''"
    by (simp add: example_create_def)
  have d: "''promo'' \<in> set (map url_id (urls example_db))"
    by (simp add: example_db_def)
  have e: "journal example_db = []"
    by (simp add: example_db_def)
  show ?thesis
    using create_custom_id_in_use [OF j a b c d, of "''k3x9q0z''" 20] e
    by simp
qed

lemma create_conflict_only_precheck:
  assumes "fst (create parses fresh now rq d) = Inl Conflict"
  shows "body rq = JsonValue
       \<and> (\<exists>c. present (custom_id rq) = Some c \<and> c \<in> set (map url_id (urls d)))"
proof -
  have ins: "fst (create_insert i u org now d') \<noteq> Inl Conflict" for i u org d'
    by (simp add: create_insert_def insert_url_def Let_def)
  have fnd: "c \<in> set (map url_id (urls d))" if "find (\<lambda>u. url_id u = c) (urls d) = Some r" for c r
    using find_SomeD [OF that] by auto
  from assms ins show ?thesis
    by (auto simp: create_def select_id_by_id_def select_id_by_original_url_def
          split: body_kind.splits option.splits if_splits dest: fnd)
qed

text \<open>
  C1, as the code has it. The insert sits in a \<^verbatim>\<open>try\<close> whose \<^verbatim>\<open>catch\<close> answers 500 for
  every failure, the uniqueness violation included. So: whenever the insert step runs
  with an identifier that a stored record already has (whatever the lookups before it
  saw), the answer is \<open>Internal\<close> and no record is added; and a whole create request
  without a custom id, for a destination not yet stored, whose generated identifier is
  already taken, is answered with \<open>Internal\<close> and adds no record. \<open>Conflict\<close> is answered
  by the custom id precheck alone: the insert step never answers it, and a create request
  answered with \<open>Conflict\<close> carried a custom id that a stored record has.
\<close>

theorem create_unique_violation_is_internal:
  assumes "i \<in> set (map url_id (urls d))"
  shows "fst (create_insert i u org now d) = Inl Internal
       \<and> urls (snd (create_insert i u org now d)) = urls d
       \<and> (body rq = JsonValue \<and> present (url rq) = Some u \<and> isValidUrl parses u
            \<and> present (custom_id rq) = None \<and> u \<notin> set (map original_url (urls d))
          \<longrightarrow> fst (create parses i now rq d) = Inl Internal
            \<and> urls (snd (create parses i now rq d)) = urls d)
       \<and> fst (create_insert i2 u2 org2 now2 d2) \<noteq> Inl Conflict
       \<and> (fst (create parses fresh now2 rq2 d2) = Inl Conflict
          \<longrightarrow> body rq2 = JsonValue
            \<and> (\<exists>c. present (custom_id rq2) = Some c \<and> c \<in> set (map url_id (urls d2))))"
proof -
  have ins: "\<And>d'. urls d' = urls d \<Longrightarrow>
               create_insert i u org' now d' = (Inl Internal, issue (InsertUrl i u) d')" for org'
    using assms by (simp add: create_insert_taken)
  have whole: "create parses i now rq d
          = (Inl Internal, issue (InsertUrl i u) (issue (SelectIdByOriginalUrl u) d))"
    if "body rq = JsonValue" "present (url rq) = Some u" "isValidUrl parses u"
       "present (custom_id rq) = None" "u \<notin> set (map original_url (urls d))"
    using that find_key_None [OF that(5)] ins [of "issue (SelectIdByOriginalUrl u) d"]
    by (simp add: create_def isValidUrl_def select_id_by_original_url_def)
  have never: "fst (create_insert i2 u2 org2 now2 d2) \<noteq> Inl Conflict"
    by (simp add: create_insert_def insert_url_def Let_def)
  have only: "fst (create parses fresh now2 rq2 d2) = Inl Conflict
          \<longrightarrow> body rq2 = JsonValue
            \<and> (\<exists>c. present (custom_id rq2) = Some c \<and> c \<in> set (map url_id (urls d2)))"
    using create_conflict_only_precheck [of parses fresh now2 rq2 d2] by blast
  have step: "fst (create_insert i u org now d) = Inl Internal
       \<and> urls (snd (create_insert i u org now d)) = urls d"
    using ins [of d] by simp
  have req: "body rq = JsonValue \<and> present (url rq) = Some u \<and> isValidUrl parses u
            \<and> present (custom_id rq) = None \<and> u \<notin> set (map original_url (urls d))
          \<longrightarrow> fst (create parses i now rq d) = Inl Internal
            \<and> urls (snd (create parses i now rq d)) = urls d"
    using whole by simp
  from step req never only show ?thesis
    by blast
qed

theorem create_unique_violation_is_internal_witness:
  "fst (create_insert ''abc1234'' ''https://b.example'' ''https://sho.rt'' 20 example_db)
     = Inl Internal
   \<and> fst (create example_parses ''abc1234'' 20 (example_create ''https://b.example'' None)
            example_db) = Inl Internal
   \<and> urls (snd (create example_parses ''abc1234'' 20 (example_create ''https://b.example'' None)
            example_db)) = urls example_db
   \<and> fst (create example_parses ''k3x9q0z'' 20
            (example_create ''https://a.example'' (Some ''promo'')) example_db) = Inl Conflict
   \<and> (\<exists>c. present (custom_id (example_create ''https://a.example'' (Some ''promo''))) = Some c
          \<and> c \<in> set (map url_id (urls example_db)))"
proof -
  let ?taken = "example_create ''https://a.example'' (Some ''promo'')"
  have a: "''abc1234'' \<in> set (map url_id (urls example_db))"
    by (simp add: example_db_def)
  have b: "body (example_create ''https://b.example'' None) = JsonValue
         \<and> present (url (example_create ''https://b.example'' None)) = Some ''https://b.example''
         \<and> isValidUrl example_parses ''https://b.example''
         \<and> present (custom_id (example_create ''https://b.example'' None)) = None
         \<and> ''https://b.example'' \<notin> set (map original_url (urls example_db))"
    by (simp add: example_create_def isValidUrl_def example_parses_def example_db_def)
  have c: "fst (create example_parses ''k3x9q0z'' 20 ?taken example_db) = Inl Conflict"
    by (simp add: create_def isValidUrl_def example_parses_def example_create_def example_db_def
          select_id_by_id_def)
  note t = create_unique_violation_is_internal
            [OF a, of "''https://b.example''" "''https://sho.rt''" 20
               "example_create ''https://b.example'' None" example_parses
               "''abc1234''" "''https://b.example''" "''https://sho.rt''" 20 example_db
               "''k3x9q0z''" ?taken]
  from t c have "\<exists>c. present (custom_id ?taken) = Some c \<and> c \<in> set (map url_id (urls example_db))"
    by blast
  moreover from t b have "fst (create_insert ''abc1234'' ''https://b.example'' ''https://sho.rt'' 20 example_db)
     = Inl Internal
   \<and> fst (create example_parses ''abc1234'' 20 (example_create ''https://b.example'' None)
            example_db) = Inl Internal
   \<and> urls (snd (create example_parses ''abc1234'' 20 (example_create ''https://b.example'' None)
            example_db)) = urls example_db"
    by blast
  ultimately show ?thesis
    using c by blast
qed

text \<open>
  C1, as the specification words it, fails: the generated identifier \<^verbatim>\<open>abc1234\<close> is already
  stored, the insert violates the primary key, and the answer is \<open>Internal\<close>, not
  \<open>Conflict\<close>.
\<close>

theorem create_unique_violation_not_conflict:
  "''abc1234'' \<in> set (map url_id (urls example_db))
   \<and> fst (create example_parses ''abc1234'' 20 (example_create ''https://b.example'' None)
            example_db) = Inl Internal
   \<and> fst (create example_parses ''abc1234'' 20 (example_create ''https://b.example'' None)
            example_db) \<noteq> Inl Conflict"
  by (simp add: create_def isValidUrl_def example_parses_def example_create_def example_db_def
        select_id_by_original_url_def create_insert_def insert_url_def issue_def)

lemma create_dedup_hit:
  assumes "body rq = JsonValue"
    and "present (url rq) = Some u" and "isValidUrl parses u" and "present (custom_id rq) = None"
    and "find (\<lambda>r. original_url r = u) (urls d) = Some r"
  shows "create parses fresh now rq d =
          (Inr \<lparr>short_url = origin rq @ ''/'' @ url_id r, existing = True\<rparr>,
           issue (SelectIdByOriginalUrl u) d)"
  using assms by (simp add: create_def select_id_by_original_url_def)

lemma create_dedup_miss:
  assumes "body rq = JsonValue"
    and "present (url rq) = Some u" and "isValidUrl parses u" and "present (custom_id rq) = None"
    and "u \<notin> set (map original_url (urls d))"
  shows "create parses fresh now rq d =
           create_insert fresh u (origin rq) now (issue (SelectIdByOriginalUrl u) d)"
  using assms find_key_None [OF assms(5)]
  by (simp add: create_def select_id_by_original_url_def)

lemma find_last_added:
  "u \<notin> set (map f xs) \<Longrightarrow> f x = u \<Longrightarrow> find (\<lambda>r. f r = u) (xs @ [x]) = Some x"
  by (induction xs) auto

lemma filter_last_added:
  "u \<notin> set (map f xs) \<Longrightarrow> f x = u \<Longrightarrow> filter (\<lambda>r. f r = u) (xs @ [x]) = [x]"
  by (induction xs) auto

text \<open>What a successful create without custom id leaves behind.\<close>

lemma create_no_custom_result:
  assumes "body rq = JsonValue"
    and "present (url rq) = Some u" and "isValidUrl parses u" and "present (custom_id rq) = None"
    and "create parses fresh now rq d = (Inr resp, d1)"
  shows "\<exists>r. find (\<lambda>r. original_url r = u) (urls d1) = Some r
           \<and> resp = \<lparr>short_url = origin rq @ ''/'' @ url_id r,
                      existing = (u \<in> set (map original_url (urls d)))\<rparr>
           \<and> (if u \<in> set (map original_url (urls d)) then urls d1 = urls d
               else urls d1 = urls d @ [r])"
proof (cases "u \<in> set (map original_url (urls d))")
  case True
  then obtain r where r: "find (\<lambda>r. original_url r = u) (urls d) = Some r"
    using find_key_Some [of u original_url "urls d"] by blast
  from create_dedup_hit [OF assms(1-4) r] assms(5) True r show ?thesis
    by auto
next
  case False
  note c = create_dedup_miss [OF assms(1-4) False, of fresh now]
  show ?thesis
  proof (cases "fresh \<in> set (map url_id (urls d))")
    case True
    then show ?thesis
      using c assms(5) by (simp add: create_insert_taken)
  next
    case free: False
    let ?new = "\<lparr>url_id = fresh, original_url = u, created_at = now\<rparr>"
    have "find (\<lambda>r. original_url r = u) (urls d @ [?new]) = Some ?new"
      using False by (simp add: find_last_added)
    then show ?thesis
      using c assms(5) False free by (auto simp add: create_insert_free)
  qed
qed

text \<open>
  C4, as the code has it. Take a create request with a JSON body, a valid \<open>url\<close> and no
  custom id.
  If a stored record has exactly that destination, the answer carries that record's
  identifier with \<open>existing = True\<close>, the tables are unchanged and the only statement
  issued is the lookup by destination. And if a first such request is answered with
  success, a second one for the same destination is answered with the same identifier and
  \<open>existing = True\<close> and adds nothing; the first answer has \<open>existing\<close> exactly when a
  record for the destination was already stored; and when at most one record for the
  destination was stored before, exactly one is stored afterwards.
\<close>

theorem create_twice:
  assumes "body rq = JsonValue"
    and "present (url rq) = Some u" and "isValidUrl parses u" and "present (custom_id rq) = None"
  shows "(find (\<lambda>r. original_url r = u) (urls d) = Some r \<longrightarrow>
            fst (create parses fresh now rq d)
              = Inr \<lparr>short_url = origin rq @ ''/'' @ url_id r, existing = True\<rparr>
          \<and> urls (snd (create parses fresh now rq d)) = urls d
          \<and> journal (snd (create parses fresh now rq d)) = journal d @ [SelectIdByOriginalUrl u])
      \<and> (create parses fresh now rq d = (Inr resp, d1) \<longrightarrow>
            fst (create parses fresh2 now2 rq d1)
              = Inr \<lparr>short_url = short_url resp, existing = True\<rparr>
          \<and> urls (snd (create parses fresh2 now2 rq d1)) = urls d1
          \<and> (existing resp \<longleftrightarrow> records_for u d \<noteq> [])
          \<and> (length (records_for u d) \<le> 1 \<longrightarrow> length (records_for u d1) = 1))"
proof (intro conjI impI)
  assume r: "find (\<lambda>r. original_url r = u) (urls d) = Some r"
  note h = create_dedup_hit [OF assms r, of fresh now]
  show "fst (create parses fresh now rq d)
              = Inr \<lparr>short_url = origin rq @ ''/'' @ url_id r, existing = True\<rparr>"
    and "urls (snd (create parses fresh now rq d)) = urls d"
    and "journal (snd (create parses fresh now rq d)) = journal d @ [SelectIdByOriginalUrl u]"
    by (simp_all add: h)
next
  assume c: "create parses fresh now rq d = (Inr resp, d1)"
  from create_no_custom_result [OF assms c]
  obtain r where r: "find (\<lambda>r. original_url r = u) (urls d1) = Some r"
    and resp: "resp = \<lparr>short_url = origin rq @ ''/'' @ url_id r,
                      existing = (u \<in> set (map original_url (urls d)))\<rparr>"
    and grow: "if u \<in> set (map original_url (urls d)) then urls d1 = urls d
               else urls d1 = urls d @ [r]"
    by blast
  note h = create_dedup_hit [OF assms r, of fresh2 now2]
  show "fst (create parses fresh2 now2 rq d1) = Inr \<lparr>short_url = short_url resp, existing = True\<rparr>"
    by (simp add: h resp)
  show "urls (snd (create parses fresh2 now2 rq d1)) = urls d1"
    by (simp add: h)
  show "existing resp \<longleftrightarrow> records_for u d \<noteq> []"
    by (auto simp: resp records_for_def filter_empty_conv)
  show "length (records_for u d1) = 1" if le: "length (records_for u d) \<le> 1"
  proof (cases "u \<in> set (map original_url (urls d))")
    case True
    then have "records_for u d \<noteq> []"
      by (auto simp: records_for_def filter_empty_conv)
    then have "length (records_for u d) = 1"
      using le by (cases "records_for u d") auto
    with True grow show ?thesis by (simp add: records_for_def)
  next
    case False
    have "original_url r = u"
      using r by (auto simp: find_Some_iff)
    with False have "filter (\<lambda>r. original_url r = u) (urls d @ [r]) = [r]"
      by (rule filter_last_added)
    moreover from grow False have "urls d1 = urls d @ [r]"
      by simp
    ultimately show ?thesis
      by (simp only: records_for_def list.size length_Cons)
  qed
qed

lemma example_first_create:
  "fst (create example_parses ''k3x9q0z'' 20 (example_create ''https://b.example'' None) example_db)
     = Inr \<lparr>short_url = ''https://sho.rt/k3x9q0z'', existing = False\<rparr>"
  by (simp add: create_def isValidUrl_def example_parses_def example_create_def example_db_def
        select_id_by_original_url_def create_insert_def insert_url_def issue_def)

theorem create_twice_witness:
  "fst (create example_parses ''k3x9q0z'' 20 (example_create ''https://b.example'' None) example_db)
     = Inr \<lparr>short_url = ''https://sho.rt/k3x9q0z'', existing = False\<rparr>
   \<and> fst (create example_parses ''m7w2p5d'' 30 (example_create ''https://b.example'' None)
        (snd (create example_parses ''k3x9q0z'' 20 (example_create ''https://b.example'' None) example_db)))
     = Inr \<lparr>short_url = ''https://sho.rt/k3x9q0z'', existing = True\<rparr>
   \<and> length (records_for ''https://b.example''
        (snd (create example_parses ''k3x9q0z'' 20 (example_create ''https://b.example'' None) example_db))) = 1"
proof -
  let ?rq = "example_create ''https://b.example'' None"
  let ?first = "create example_parses ''k3x9q0z'' 20 ?rq example_db"
  let ?resp = "\<lparr>short_url = ''https://sho.rt/k3x9q0z'', existing = False\<rparr>"
  have j: "body ?rq = JsonValue"
    and a: "present (url ?rq) = Some ''https://b.example''"
    and c: "present (custom_id ?rq) = None"
    by (simp_all add: example_create_def)
  have b: "isValidUrl example_parses ''https://b.example''"
    by (simp add: isValidUrl_def example_parses_def)
  have n: "length (records_for ''https://b.example'' example_db) \<le> 1"
    by (simp add: records_for_def example_db_def)
  have f: "fst ?first = Inr ?resp"
    by (rule example_first_create)
  then have eq: "?first = (Inr ?resp, snd ?first)"
    by (simp add: prod_eq_iff)
  from create_twice [OF j a b c, of example_db undefined "''k3x9q0z''" 20 ?resp "snd ?first"
                       "''m7w2p5d''" 30] eq n
  have "fst (create example_parses ''m7w2p5d'' 30 ?rq (snd ?first))
          = Inr \<lparr>short_url = short_url ?resp, existing = True\<rparr>
        \<and> length (records_for ''https://b.example'' (snd ?first)) = 1"
    by blast
  with f show ?thesis
    by simp
qed

lemma example_twins_urls:
  "urls example_twins =
     [\<lparr>url_id = ''spring'', original_url = ''https://a.example'', created_at = 1\<rparr>,
      \<lparr>url_id = ''summer'', original_url = ''https://a.example'', created_at = 2\<rparr>]"
  by (simp add: example_twins_def empty_db_def create_def isValidUrl_def example_parses_def
        example_create_def select_id_by_id_def create_insert_def insert_url_def issue_def)

text \<open>
  C4, as the specification words it, fails on "exactly one stored record": creating with
  a custom id does not look the destination up, so \<^verbatim>\<open>spring\<close> and \<^verbatim>\<open>summer\<close> both lead
  to the same destination. Two creates of that destination without a custom id are both
  answered with \<^verbatim>\<open>spring\<close>, and two records for it remain.
\<close>

theorem create_twice_keeps_two_records:
  "fst (create example_parses ''k3x9q0z'' 20 (example_create ''https://a.example'' None) example_twins)
     = Inr \<lparr>short_url = ''https://sho.rt/spring'', existing = True\<rparr>
   \<and> fst (create example_parses ''m7w2p5d'' 30 (example_create ''https://a.example'' None)
        (snd (create example_parses ''k3x9q0z'' 20 (example_create ''https://a.example'' None) example_twins)))
     = Inr \<lparr>short_url = ''https://sho.rt/spring'', existing = True\<rparr>
   \<and> length (records_for ''https://a.example''
        (snd (create example_parses ''m7w2p5d'' 30 (example_create ''https://a.example'' None)
          (snd (create example_parses ''k3x9q0z'' 20 (example_create ''https://a.example'' None) example_twins)))))
     = 2"
  by (simp add: create_def isValidUrl_def example_parses_def example_create_def
        select_id_by_original_url_def records_for_def example_twins_urls)

section \<open>Listing: the summary rows\<close>

lemma max_Some: "max (Some x) (Some y) = Some (max x (y::'a::linorder))"
  by (simp add: max_def)

lemma min_Some: "min (Some x) (Some y) = Some (min x (y::'a::linorder))"
  by (simp add: min_def)

lemma max_None: "max None (x::'a::linorder option) = x" "max x None = x"
  by (cases x; simp add: max_def)+

lemma sql_max_Cons: "sql_max (x # xs) = max x (sql_max xs)"
  by (cases x; cases "sql_max xs") (simp_all add: max_Some max_None)

lemma sql_max_Max: "xs \<noteq> [] \<Longrightarrow> sql_max xs = Max (set xs)"
proof (induction xs)
  case Nil
  then show ?case by simp
next
  case (Cons x xs)
  show ?case
  proof (cases "xs = []")
    case True
    then show ?thesis by (cases x) simp_all
  next
    case False
    with Cons.IH have "sql_max xs = Max (set xs)" by simp
    with False show ?thesis
      by (simp only: sql_max_Cons) simp
  qed
qed

lemma sql_max_Some_Max:
  "xs \<noteq> [] \<Longrightarrow> sql_max (map (\<lambda>a. Some (f a)) xs) = Some (Max (f ` set xs))"
proof (induction xs)
  case Nil
  then show ?case by simp
next
  case (Cons x xs)
  then show ?case
    by (cases "xs = []") (simp_all add: max_Some)
qed

lemma sql_min_Some_Min:
  "xs \<noteq> [] \<Longrightarrow> sql_min (map (\<lambda>a. Some (f a)) xs) = Some (Min (f ` set xs))"
proof (induction xs)
  case Nil
  then show ?case by simp
next
  case (Cons x xs)
  then show ?case
    by (cases "xs = []") (simp_all add: min_Some)
qed

lemma sql_max_guarded:
  "sql_max (map (\<lambda>a. if P a then f a else None) xs) = sql_max (map f (filter P xs))"
  by (induction xs) (simp_all add: sql_max_Cons max_None)

lemma filter_by_key:
  "distinct (map f us) \<Longrightarrow> find (\<lambda>u. f u = k) us = Some u0 \<Longrightarrow> filter (\<lambda>u. k = f u) us = [u0]"
proof (induction us)
  case Nil
  then show ?case by simp
next
  case (Cons u us)
  show ?case
  proof (cases "f u = k")
    case True
    with Cons.prems have "u0 = u" and "k \<notin> set (map f us)"
      by auto
    then have "filter (\<lambda>u. k = f u) us = []"
      by (auto simp: filter_empty_conv)
    with True \<open>u0 = u\<close> show ?thesis by simp
  next
    case False
    with Cons show ?thesis by auto
  qed
qed

lemma find_distinct_key:
  "distinct (map f us) \<Longrightarrow> u \<in> set us \<Longrightarrow> find (\<lambda>v. f v = f u) us = Some u"
proof (induction us)
  case Nil
  then show ?case by simp
next
  case (Cons w us)
  then show ?case by (cases "w = u") auto
qed

lemma set_joined:
  "set (joined d) =
     {(a, u). a \<in> set (analytics d) \<and> u \<in> set (urls d) \<and> short_id a = url_id u}"
  by (auto simp: joined_def)

lemma group_keys_iff:
  assumes "distinct (map url_id (urls d))"
  shows "k \<in> set (group_keys d) \<longleftrightarrow>
           fst k \<in> set (map short_id (analytics d))
         \<and> (\<exists>u0. find (\<lambda>u. url_id u = fst k) (urls d) = Some u0 \<and> snd k = original_url u0)"
proof
  assume "k \<in> set (group_keys d)"
  then obtain a u where au: "a \<in> set (analytics d)" "u \<in> set (urls d)" "short_id a = url_id u"
    and k: "k = (short_id a, original_url u)"
    by (auto simp: group_keys_def set_joined group_key_def)
  from find_distinct_key [OF assms au(2)] au(3) k
  have "find (\<lambda>v. url_id v = fst k) (urls d) = Some u"
    by simp
  with au(1) k show "fst k \<in> set (map short_id (analytics d))
         \<and> (\<exists>u0. find (\<lambda>u. url_id u = fst k) (urls d) = Some u0 \<and> snd k = original_url u0)"
    by auto
next
  assume r: "fst k \<in> set (map short_id (analytics d))
         \<and> (\<exists>u0. find (\<lambda>u. url_id u = fst k) (urls d) = Some u0 \<and> snd k = original_url u0)"
  then obtain a u0 where a: "a \<in> set (analytics d)" "short_id a = fst k"
    and u0: "find (\<lambda>u. url_id u = fst k) (urls d) = Some u0" "snd k = original_url u0"
    by auto
  from find_SomeD [OF u0(1)] have "u0 \<in> set (urls d)" "url_id u0 = fst k"
    by simp_all
  with a have "(a, u0) \<in> set (joined d)"
    by (simp add: set_joined)
  moreover have "group_key (a, u0) = k"
    using a(2) u0(2) by (simp add: group_key_def prod_eq_iff)
  ultimately show "k \<in> set (group_keys d)"
    by (auto simp: group_keys_def)
qed

lemma group_of_key:
  assumes "distinct (map url_id us)" and "find (\<lambda>u. url_id u = sid) us = Some u0"
  shows "map fst (filter (\<lambda>j. group_key j = (sid, original_url u0))
            (concat (map (\<lambda>a1. map (Pair a1) (filter (\<lambda>u. short_id a1 = url_id u) us)) as)))
         = filter (\<lambda>a. short_id a = sid) as"
proof (induction as)
  case Nil
  then show ?case by simp
next
  case (Cons a as)
  show ?case
  proof (cases "short_id a = sid")
    case True
    with filter_by_key [OF assms] have "filter (\<lambda>u. short_id a = url_id u) us = [u0]"
      by simp
    with True Cons.IH show ?thesis
      by (simp add: group_key_def)
  next
    case False
    then have "filter (\<lambda>j. group_key j = (sid, original_url u0)) (map (Pair a) xs) = []" for xs
      by (simp add: filter_empty_conv group_key_def)
    with False Cons.IH show ?thesis
      by simp
  qed
qed

lemma distinct_group_ids:
  assumes "distinct (map url_id (urls d))"
  shows "distinct (map fst (group_keys d))"
proof -
  have "inj_on fst (set (group_keys d))"
  proof (rule inj_onI)
    fix k k' assume "k \<in> set (group_keys d)" "k' \<in> set (group_keys d)" "fst k = fst k'"
    then show "k = k'"
      by (auto simp: group_keys_iff [OF assms] prod_eq_iff)
  qed
  moreover have "distinct (group_keys d)"
    by (simp add: group_keys_def)
  ultimately show ?thesis
    by (simp add: distinct_map)
qed

lemma summaries_ids: "map row_short_id (summaries d) = map fst (group_keys d)"
  by (simp add: summaries_def summary_of_def Let_def)

lemma Max_attained_filter:
  "xs \<noteq> [] \<Longrightarrow> filter (\<lambda>a. f a = Max (f ` set xs)) xs \<noteq> []"
proof -
  assume "xs \<noteq> []"
  then have "Max (f ` set xs) \<in> f ` set xs"
    by (intro Max_in) auto
  then show ?thesis
    by (auto simp: filter_empty_conv)
qed

lemma summary_of_key:
  assumes "distinct (map url_id (urls d))" and "k \<in> set (group_keys d)"
  shows "clicks_of (fst k) d \<noteq> []"
    and "row_short_id (summary_of d k) = fst k"
    and "click_count (summary_of d k) = length (clicks_of (fst k) d)"
    and "first_clicked (summary_of d k) = Some (Min (timestamp ` set (clicks_of (fst k) d)))"
    and "last_clicked (summary_of d k) = Some (Max (timestamp ` set (clicks_of (fst k) d)))"
    and "latest_referrer (summary_of d k) = Max (referrer ` set (newest_clicks_of (fst k) d))"
    and "row_country_code (summary_of d k) = Max (country_code ` set (clicks_of (fst k) d))"
    and "\<exists>u \<in> set (urls d). url_id u = fst k \<and> row_original_url (summary_of d k) = original_url u"
proof -
  let ?cs = "clicks_of (fst k) d"
  from assms obtain u0 where a: "fst k \<in> set (map short_id (analytics d))"
    and u0: "find (\<lambda>u. url_id u = fst k) (urls d) = Some u0" and sk: "snd k = original_url u0"
    by (auto simp: group_keys_iff)
  have k: "k = (fst k, original_url u0)"
    using sk by (simp add: prod_eq_iff)
  have g: "map fst (filter (\<lambda>j. group_key j = k) (joined d)) = ?cs"
    unfolding joined_def clicks_of_def
    by (subst k) (rule group_of_key [OF assms(1) u0])
  show ne: "?cs \<noteq> []"
    using a by (auto simp: clicks_of_def filter_empty_conv)
  show "row_short_id (summary_of d k) = fst k"
    by (simp add: summary_of_def Let_def)
  show "click_count (summary_of d k) = length ?cs"
    by (simp add: summary_of_def Let_def g)
  show "first_clicked (summary_of d k) = Some (Min (timestamp ` set ?cs))"
    by (simp add: summary_of_def Let_def g sql_min_Some_Min [OF ne])
  show "last_clicked (summary_of d k) = Some (Max (timestamp ` set ?cs))"
    by (simp add: summary_of_def Let_def g sql_max_Some_Max [OF ne])
  show "row_country_code (summary_of d k) = Max (country_code ` set ?cs)"
    using ne by (simp add: summary_of_def Let_def g sql_max_Max)
  show "\<exists>u \<in> set (urls d). url_id u = fst k \<and> row_original_url (summary_of d k) = original_url u"
    using find_SomeD [OF u0] sk by (auto simp: summary_of_def Let_def)
  have m: "max_timestamp_of d (fst k) = Some (Max (timestamp ` set ?cs))"
    using sql_max_Some_Max [OF ne, of timestamp] by (simp add: max_timestamp_of_def clicks_of_def)
  let ?F = "\<lambda>a1. if Some (timestamp a1) = max_timestamp_of d (short_id a1)
                    then referrer a1 else None"
  let ?G = "\<lambda>a1. if timestamp a1 = Max (timestamp ` set ?cs) then referrer a1 else None"
  have e: "map ?F ?cs = map ?G ?cs"
    by (rule map_cong) (auto simp: m clicks_of_def)
  have n: "newest_clicks_of (fst k) d \<noteq> []"
    unfolding newest_clicks_of_def using ne by (rule Max_attained_filter)
  have "latest_referrer (summary_of d k) = sql_max (map ?F ?cs)"
    by (simp add: summary_of_def Let_def g)
  also have "\<dots> = sql_max (map ?G ?cs)"
    by (simp only: e)
  also have "\<dots> = sql_max (map referrer (newest_clicks_of (fst k) d))"
    by (simp only: sql_max_guarded newest_clicks_of_def)
  also have "\<dots> = Max (referrer ` set (newest_clicks_of (fst k) d))"
    using n by (simp add: sql_max_Max)
  finally show "latest_referrer (summary_of d k) = Max (referrer ` set (newest_clicks_of (fst k) d))" .
qed

lemma summaries_id_set:
  assumes "distinct (map url_id (urls d))"
  shows "set (map row_short_id (summaries d))
           = set (map short_id (analytics d)) \<inter> set (map url_id (urls d))"
proof (rule set_eqI)
  fix sid
  show "sid \<in> set (map row_short_id (summaries d))
          \<longleftrightarrow> sid \<in> set (map short_id (analytics d)) \<inter> set (map url_id (urls d))"
  proof
    assume "sid \<in> set (map row_short_id (summaries d))"
    then obtain k where "k \<in> set (group_keys d)" "fst k = sid"
      by (auto simp: summaries_ids)
    then obtain u0 where a: "sid \<in> set (map short_id (analytics d))"
      and "find (\<lambda>u. url_id u = sid) (urls d) = Some u0"
      using group_keys_iff [OF assms, of k] by auto
    then have "u0 \<in> set (urls d)" and "url_id u0 = sid"
      using find_SomeD [of "\<lambda>u. url_id u = sid" "urls d" u0] by simp_all
    then have "sid \<in> set (map url_id (urls d))"
      by (auto simp: image_iff)
    with a show "sid \<in> set (map short_id (analytics d)) \<inter> set (map url_id (urls d))"
      by simp
  next
    assume r: "sid \<in> set (map short_id (analytics d)) \<inter> set (map url_id (urls d))"
    then obtain u0 where "find (\<lambda>u. url_id u = sid) (urls d) = Some u0"
      using find_key_Some [of sid url_id "urls d"] by auto
    with r have "(sid, original_url u0) \<in> set (group_keys d)"
      by (simp add: group_keys_iff [OF assms])
    then have "fst (sid, original_url u0) \<in> fst ` set (group_keys d)"
      by (rule imageI)
    then show "sid \<in> set (map row_short_id (summaries d))"
      by (simp add: summaries_ids)
  qed
qed

text \<open>
  C2, as the code has it. The summary query joins the clicks with the records, so a row
  needs both. In a store whose record ids are distinct (the primary key), the rows before
  ordering and paging are exactly one per identifier that has at least one click and a
  stored record; when every click's record is stored that is one per identifier with a
  click. In each row \<open>click_count\<close> is the number of clicks of the identifier,
  \<open>first_clicked\<close> and \<open>last_clicked\<close> their least and greatest timestamps,
  \<open>latest_referrer\<close> the referrer of the click with the greatest timestamp (the largest
  such referrer when several clicks share it), \<open>country_code\<close> the largest country code
  among all the clicks, and \<open>original_url\<close> the destination of the record. \<^verbatim>\<open>NULL\<close> is
  below every text in these comparisons.
\<close>

theorem list_summaries:
  assumes "distinct (map url_id (urls d))"
  shows "distinct (map row_short_id (summaries d))
     \<and> set (map row_short_id (summaries d))
         = set (map short_id (analytics d)) \<inter> set (map url_id (urls d))
     \<and> (set (map short_id (analytics d)) \<subseteq> set (map url_id (urls d)) \<longrightarrow>
          set (map row_short_id (summaries d)) = set (map short_id (analytics d)))
     \<and> (\<forall>row \<in> set (summaries d).
          0 < click_count row
        \<and> click_count row = length (clicks_of (row_short_id row) d)
        \<and> first_clicked row = Some (Min (timestamp ` set (clicks_of (row_short_id row) d)))
        \<and> last_clicked row = Some (Max (timestamp ` set (clicks_of (row_short_id row) d)))
        \<and> latest_referrer row = Max (referrer ` set (newest_clicks_of (row_short_id row) d))
        \<and> (\<forall>a. newest_clicks_of (row_short_id row) d = [a] \<longrightarrow> latest_referrer row = referrer a)
        \<and> row_country_code row = Max (country_code ` set (clicks_of (row_short_id row) d))
        \<and> (\<exists>u \<in> set (urls d). url_id u = row_short_id row
              \<and> row_original_url row = original_url u))"
proof (intro conjI ballI)
  show "distinct (map row_short_id (summaries d))"
    by (simp add: summaries_ids distinct_group_ids [OF assms])
  show ids: "set (map row_short_id (summaries d))
         = set (map short_id (analytics d)) \<inter> set (map url_id (urls d))"
    by (rule summaries_id_set [OF assms])
  show "set (map short_id (analytics d)) \<subseteq> set (map url_id (urls d)) \<longrightarrow>
          set (map row_short_id (summaries d)) = set (map short_id (analytics d))"
    unfolding ids by blast
next
  fix row assume "row \<in> set (summaries d)"
  then obtain k where k: "k \<in> set (group_keys d)" and row: "row = summary_of d k"
    by (auto simp: summaries_def)
  note p = summary_of_key [OF assms k]
  have sid: "row_short_id row = fst k"
    by (simp add: row p(2))
  show "click_count row = length (clicks_of (row_short_id row) d)"
    by (simp only: sid) (simp add: row p(3))
  then show "0 < click_count row"
    using p(1) by (simp add: sid)
  show "first_clicked row = Some (Min (timestamp ` set (clicks_of (row_short_id row) d)))"
    by (simp only: sid) (simp add: row p(4))
  show "last_clicked row = Some (Max (timestamp ` set (clicks_of (row_short_id row) d)))"
    by (simp only: sid) (simp add: row p(5))
  show lr: "latest_referrer row = Max (referrer ` set (newest_clicks_of (row_short_id row) d))"
    by (simp only: sid) (simp add: row p(6))
  show "\<forall>a. newest_clicks_of (row_short_id row) d = [a] \<longrightarrow> latest_referrer row = referrer a"
    by (simp add: lr)
  show "row_country_code row = Max (country_code ` set (clicks_of (row_short_id row) d))"
    by (simp only: sid) (simp add: row p(7))
  show "\<exists>u \<in> set (urls d). url_id u = row_short_id row \<and> row_original_url row = original_url u"
    by (simp only: sid) (simp add: row p(8))
qed

lemma example_row_listed:
  "summary_of example_db (''abc1234'', ''https://a.example'') \<in> set (summaries example_db)"
  by code_simp

lemma example_row_id:
  "row_short_id (summary_of example_db (''abc1234'', ''https://a.example'')) = ''abc1234''"
  by (simp add: summary_of_def Let_def)

lemma example_clicks:
  "length (clicks_of ''abc1234'' example_db) = 2"
  "Min (timestamp ` set (clicks_of ''abc1234'' example_db)) = 100"
  "Max (timestamp ` set (clicks_of ''abc1234'' example_db)) = 200"
  "Max (referrer ` set (newest_clicks_of ''abc1234'' example_db)) = Some ''https://r3.example''"
  "Max (country_code ` set (clicks_of ''abc1234'' example_db)) = Some ''US''"
  by code_simp+

theorem list_summaries_witness:
  "distinct (map row_short_id (summaries example_db))
   \<and> set (map row_short_id (summaries example_db)) = {''abc1234'', ''promo''}
   \<and> click_count (summary_of example_db (''abc1234'', ''https://a.example'')) = 2
   \<and> first_clicked (summary_of example_db (''abc1234'', ''https://a.example'')) = Some 100
   \<and> last_clicked (summary_of example_db (''abc1234'', ''https://a.example'')) = Some 200
   \<and> latest_referrer (summary_of example_db (''abc1234'', ''https://a.example''))
        = Some ''https://r3.example''
   \<and> row_country_code (summary_of example_db (''abc1234'', ''https://a.example'')) = Some ''US''"
proof -
  let ?row = "summary_of example_db (''abc1234'', ''https://a.example'')"
  have a: "distinct (map url_id (urls example_db))"
    by (simp add: example_db_def)
  have i: "set (map short_id (analytics example_db)) \<inter> set (map url_id (urls example_db))
             = {''abc1234'', ''promo''}"
    by (auto simp add: example_db_def example_click_def)
  note t = list_summaries [OF a]
  from t have d: "distinct (map row_short_id (summaries example_db))"
    by (rule conjunct1)
  from t have s: "set (map row_short_id (summaries example_db))
         = set (map short_id (analytics example_db)) \<inter> set (map url_id (urls example_db))"
    by (rule conjunct2 [THEN conjunct1])
  from t have "\<forall>row \<in> set (summaries example_db).
          0 < click_count row
        \<and> click_count row = length (clicks_of (row_short_id row) example_db)
        \<and> first_clicked row = Some (Min (timestamp ` set (clicks_of (row_short_id row) example_db)))
        \<and> last_clicked row = Some (Max (timestamp ` set (clicks_of (row_short_id row) example_db)))
        \<and> latest_referrer row = Max (referrer ` set (newest_clicks_of (row_short_id row) example_db))
        \<and> (\<forall>a. newest_clicks_of (row_short_id row) example_db = [a] \<longrightarrow> latest_referrer row = referrer a)
        \<and> row_country_code row = Max (country_code ` set (clicks_of (row_short_id row) example_db))
        \<and> (\<exists>u \<in> set (urls example_db). url_id u = row_short_id row
              \<and> row_original_url row = original_url u)"
    by (rule conjunct2 [THEN conjunct2, THEN conjunct2])
  from bspec [OF this example_row_listed]
  have "click_count ?row = 2 \<and> first_clicked ?row = Some 100 \<and> last_clicked ?row = Some 200
      \<and> latest_referrer ?row = Some ''https://r3.example'' \<and> row_country_code ?row = Some ''US''"
    by (simp only: example_row_id example_clicks)
  with d s i show ?thesis
    by simp
qed

text \<open>
  C2, as the specification words it, fails in a store that holds a click without its
  record: \<^verbatim>\<open>promo\<close> has a click and no row, while the total still counts it.
\<close>

theorem list_skips_click_without_record:
  "''promo'' \<in> set (map short_id (analytics example_orphan))
   \<and> map row_short_id (summaries example_orphan) = [''abc1234'']
   \<and> fst (count_distinct_short_id example_orphan) = 2"
  by code_simp

section \<open>Listing: parameters, order and pages\<close>







lemma summaries_issue [simp]: "summaries (issue s d) = summaries d"
  by (simp add: summaries_def group_keys_def joined_def summary_of_def max_timestamp_of_def)









section \<open>Detail of one identifier\<close>

lemma insort_view:
  "insort_key ev_timestamp (view_of x) (map view_of ys) = map view_of (insort_key timestamp x ys)"
  by (induction ys) (simp_all add: view_of_def)

lemma sort_views:
  "sort_key ev_timestamp (map view_of cs) = map view_of (sort_key timestamp cs)"
  by (induction cs) (simp_all add: insort_view)

lemma select_events_shown:
  "fst (select_events i d)
     = map view_of (take 1000 (rev (sort_key timestamp (clicks_of i d))))"
  by (simp add: select_events_def clicks_of_def sort_views rev_map take_map)

lemma newest_clicks_first:
  "sorted_wrt (\<lambda>a b. timestamp b \<le> timestamp a) (rev (sort_key timestamp cs))"
proof -
  have "sorted (map timestamp (sort_key timestamp cs))"
    by (rule sorted_sort_key)
  then show ?thesis
    by (simp add: sorted_map sorted_wrt_rev)
qed

lemma take_most_recent:
  assumes "sorted_wrt (\<lambda>a b. timestamp b \<le> timestamp a) s"
  shows "sorted_wrt (\<lambda>a b. timestamp b \<le> timestamp a) (take n s)"
    and "\<forall>x \<in> set (take n s). \<forall>y \<in> set (drop n s). timestamp y \<le> timestamp x"
proof -
  have "sorted_wrt (\<lambda>a b. timestamp b \<le> timestamp a) (take n s @ drop n s)"
    using assms by simp
  then show "sorted_wrt (\<lambda>a b. timestamp b \<le> timestamp a) (take n s)"
    and "\<forall>x \<in> set (take n s). \<forall>y \<in> set (drop n s). timestamp y \<le> timestamp x"
    unfolding sorted_wrt_append by blast+
qed

lemma shown_and_rest:
  "mset (take n (rev (sort_key timestamp cs))) + mset (drop n (rev (sort_key timestamp cs)))
     = mset cs"
  by (metis append_take_drop_id mset_append mset_rev mset_sort)

lemma newest_first_views:
  "sorted_wrt (\<lambda>a b. timestamp b \<le> timestamp a) cs \<Longrightarrow> newest_first (map view_of cs)"
  by (simp add: newest_first_def sorted_wrt_map view_of_def)

lemma detail_authorized:
  "authorized api_key (detail_authorization rq) \<Longrightarrow>
   fst (detail api_key rq d) =
     Inr \<lparr>resp_id = detail_id rq,
          resp_original_url = present (map_option original_url (find (\<lambda>u. url_id u = detail_id rq) (urls d))),
          resp_click_count = length (fst (select_events (detail_id rq) d)),
          resp_analytics = fst (select_events (detail_id rq) d)\<rparr>"
  by (simp add: detail_def select_original_url_def select_events_def)

lemma detail_reads_only:
  "urls (snd (detail api_key rq d)) = urls d \<and> analytics (snd (detail api_key rq d)) = analytics d"
  by (simp add: detail_def select_original_url_def select_events_def)

text \<open>
  C8. A detail request that passes the credential check is answered with the identifier,
  with at most 1000 events, newest first, and with \<open>click_count\<close> equal to the number of
  events in the answer, that is the smaller of 1000 and the number of clicks stored for
  the identifier. The events are stored clicks of the identifier, one event per click and
  in the same order column by column: timestamp, ip, user agent, referrer and country code
  are the click's own. The clicks left out are none of them newer than any click shown.
  The destination is the stored one when a record with the identifier exists (its
  destination is never empty when \<^verbatim>\<open>POST /create\<close> stored it) and null when none exists.
  The tables are only read.
\<close>

theorem detail_recent_events:
  assumes "authorized api_key (detail_authorization rq)"
  shows "\<exists>resp. fst (detail api_key rq d) = Inr resp
     \<and> resp_id resp = detail_id rq
     \<and> length (resp_analytics resp) \<le> 1000
     \<and> resp_click_count resp = length (resp_analytics resp)
     \<and> resp_click_count resp = min 1000 (length (clicks_of (detail_id rq) d))
     \<and> newest_first (resp_analytics resp)
     \<and> (\<exists>shown rest.
            mset shown + mset rest = mset (clicks_of (detail_id rq) d)
          \<and> map ev_timestamp (resp_analytics resp) = map timestamp shown
          \<and> map ev_ip (resp_analytics resp) = map ip shown
          \<and> map ev_user_agent (resp_analytics resp) = map user_agent shown
          \<and> map ev_referrer (resp_analytics resp) = map referrer shown
          \<and> map ev_country_code (resp_analytics resp) = map country_code shown
          \<and> (\<forall>x \<in> set shown. \<forall>y \<in> set rest. timestamp y \<le> timestamp x))
     \<and> (detail_id rq \<notin> set (map url_id (urls d)) \<longrightarrow> resp_original_url resp = None)
     \<and> (find (\<lambda>u. url_id u = detail_id rq) (urls d) = Some r \<and> original_url r \<noteq> [] \<longrightarrow>
          resp_original_url resp = Some (original_url r))
     \<and> urls (snd (detail api_key rq d)) = urls d
     \<and> analytics (snd (detail api_key rq d)) = analytics d"
proof -
  let ?i = "detail_id rq"
  let ?sorted = "rev (sort_key timestamp (clicks_of ?i d))"
  let ?shown = "take 1000 ?sorted"
  let ?rest = "drop 1000 ?sorted"
  let ?ev = "fst (select_events ?i d)"
  let ?resp = "\<lparr>resp_id = ?i,
          resp_original_url = present (map_option original_url (find (\<lambda>u. url_id u = ?i) (urls d))),
          resp_click_count = length ?ev, resp_analytics = ?ev\<rparr>"
  have ev: "?ev = map view_of ?shown"
    by (rule select_events_shown)
  have r: "fst (detail api_key rq d) = Inr ?resp"
    using assms by (rule detail_authorized)
  have i: "resp_id ?resp = detail_id rq"
    and c: "resp_click_count ?resp = length (resp_analytics ?resp)"
    by simp_all
  have n: "resp_click_count ?resp = min 1000 (length (clicks_of ?i d))"
    by (simp add: ev)
  have le: "length (resp_analytics ?resp) \<le> 1000"
    by (simp add: ev)
  have nf: "newest_first (resp_analytics ?resp)"
    by (simp add: ev newest_first_views take_most_recent(1) [OF newest_clicks_first])
  have cols: "mset ?shown + mset ?rest = mset (clicks_of ?i d)
          \<and> map ev_timestamp (resp_analytics ?resp) = map timestamp ?shown
          \<and> map ev_ip (resp_analytics ?resp) = map ip ?shown
          \<and> map ev_user_agent (resp_analytics ?resp) = map user_agent ?shown
          \<and> map ev_referrer (resp_analytics ?resp) = map referrer ?shown
          \<and> map ev_country_code (resp_analytics ?resp) = map country_code ?shown
          \<and> (\<forall>x \<in> set ?shown. \<forall>y \<in> set ?rest. timestamp y \<le> timestamp x)"
    using take_most_recent(2) [OF newest_clicks_first, of 1000 "clicks_of ?i d"]
    by (simp add: ev view_of_def shown_and_rest)
  have mr: "\<exists>shown rest.
            mset shown + mset rest = mset (clicks_of (detail_id rq) d)
          \<and> map ev_timestamp (resp_analytics ?resp) = map timestamp shown
          \<and> map ev_ip (resp_analytics ?resp) = map ip shown
          \<and> map ev_user_agent (resp_analytics ?resp) = map user_agent shown
          \<and> map ev_referrer (resp_analytics ?resp) = map referrer shown
          \<and> map ev_country_code (resp_analytics ?resp) = map country_code shown
          \<and> (\<forall>x \<in> set shown. \<forall>y \<in> set rest. timestamp y \<le> timestamp x)"
    by (rule exI [of _ ?shown], rule exI [of _ ?rest]) (rule cols)
  have u0: "?i \<notin> set (map url_id (urls d)) \<longrightarrow> resp_original_url ?resp = None"
    by (auto simp: find_key_None [of ?i url_id "urls d"])
  have u1: "find (\<lambda>u. url_id u = ?i) (urls d) = Some r \<and> original_url r \<noteq> [] \<longrightarrow>
          resp_original_url ?resp = Some (original_url r)"
    by simp
  have ro: "urls (snd (detail api_key rq d)) = urls d"
    and ra: "analytics (snd (detail api_key rq d)) = analytics d"
    by (simp_all add: detail_reads_only)
  show ?thesis
    by (rule exI [of _ ?resp], intro conjI) (fact r i le c n nf mr u0 u1 ro ra)+
qed

lemma example_detail_answer:
  "fst (detail ''s3cret'' (example_detail ''abc1234'') example_db) =
     Inr \<lparr>resp_id = ''abc1234'', resp_original_url = Some ''https://a.example'',
          resp_click_count = 2,
          resp_analytics =
            [\<lparr>ev_timestamp = 200, ev_ip = Some ''203.0.113.7'', ev_user_agent = Some ''curl'',
              ev_referrer = Some ''https://r3.example'', ev_country_code = Some ''DE''\<rparr>,
             \<lparr>ev_timestamp = 100, ev_ip = Some ''203.0.113.7'', ev_user_agent = Some ''curl'',
              ev_referrer = Some ''https://r1.example'', ev_country_code = Some ''US''\<rparr>]\<rparr>"
  by code_simp

theorem detail_recent_events_witness:
  "\<exists>resp. fst (detail ''s3cret'' (example_detail ''abc1234'') example_db) = Inr resp
      \<and> resp_click_count resp = 2 \<and> length (resp_analytics resp) = 2
      \<and> newest_first (resp_analytics resp)
      \<and> resp_original_url resp = Some ''https://a.example''
      \<and> map ev_timestamp (resp_analytics resp) = [200, 100]
      \<and> map ev_ip (resp_analytics resp) = [Some ''203.0.113.7'', Some ''203.0.113.7'']
      \<and> map ev_user_agent (resp_analytics resp) = [Some ''curl'', Some ''curl'']
      \<and> map ev_referrer (resp_analytics resp)
           = [Some ''https://r3.example'', Some ''https://r1.example'']
      \<and> map ev_country_code (resp_analytics resp) = [Some ''DE'', Some ''US'']"
proof -
  let ?rq = "example_detail ''abc1234''"
  let ?r = "\<lparr>url_id = ''abc1234'', original_url = ''https://a.example'', created_at = 10\<rparr>"
  have a: "authorized ''s3cret'' (detail_authorization ?rq)"
    by (simp add: example_detail_def example_authorized)
  have f: "find (\<lambda>u. url_id u = detail_id ?rq) (urls example_db) = Some ?r \<and> original_url ?r \<noteq> []"
    by (simp add: example_detail_def example_db_def)
  have n: "min 1000 (length (clicks_of (detail_id ?rq) example_db)) = 2"
    by (simp add: example_detail_def clicks_of_def example_db_def example_click_def)
  from detail_recent_events [OF a, of example_db ?r]
  obtain resp where r: "fst (detail ''s3cret'' ?rq example_db) = Inr resp"
    and "resp_click_count resp = length (resp_analytics resp)"
    and "resp_click_count resp = min 1000 (length (clicks_of (detail_id ?rq) example_db))"
    and "newest_first (resp_analytics resp)"
    and "find (\<lambda>u. url_id u = detail_id ?rq) (urls example_db) = Some ?r \<and> original_url ?r \<noteq> [] \<longrightarrow>
          resp_original_url resp = Some (original_url ?r)"
    by blast
  moreover from r example_detail_answer have "resp_analytics resp =
            [\<lparr>ev_timestamp = 200, ev_ip = Some ''203.0.113.7'', ev_user_agent = Some ''curl'',
              ev_referrer = Some ''https://r3.example'', ev_country_code = Some ''DE''\<rparr>,
             \<lparr>ev_timestamp = 100, ev_ip = Some ''203.0.113.7'', ev_user_agent = Some ''curl'',
              ev_referrer = Some ''https://r1.example'', ev_country_code = Some ''US''\<rparr>]"
    by auto
  ultimately show ?thesis
    using f n by (intro exI [of _ resp]) simp
qed

section \<open>Redirecting\<close>

lemma fold_max_ge:
  "(s::nat) \<le> fold max xs s \<and> (\<forall>x \<in> set xs. x \<le> fold max xs s)"
proof (induction xs arbitrary: s)
  case Nil
  then show ?case by simp
next
  case (Cons y ys)
  from Cons.IH [of "max y s"] show ?case
    by auto
qed

lemma next_key_fresh: "Suc (fold max xs s) \<notin> set xs"
  using fold_max_ge [of s xs] by force

lemma header_or_empty: "or_else h [] = (case h of None \<Rightarrow> [] | Some s \<Rightarrow> s)"
  by (cases h) simp_all

lemma redirect_unknown:
  "param_id rq \<notin> set (map url_id (urls d)) \<Longrightarrow>
   redirect now rq d = (Inl NotFound, issue (SelectOriginalUrlById (param_id rq)) d)"
  by (simp add: redirect_def select_original_url_def find_key_None [of "param_id rq" url_id])

lemma redirect_known:
  "find (\<lambda>u. url_id u = param_id rq) (urls d) = Some r \<Longrightarrow>
   redirect now rq d =
     (Inr (original_url r),
      insert_click (param_id rq) (or_else (cf_connecting_ip rq) []) (or_else (user_agent_header rq) [])
        (or_else (cf_ipcountry rq) []) (or_else (referer rq) []) now
        (issue (SelectOriginalUrlById (param_id rq)) d))"
  by (simp add: redirect_def select_original_url_def)

lemma insert_click_tables:
  "urls (insert_click sid i ua cc rf now d) = urls d"
  "analytics (insert_click sid i ua cc rf now d) =
     analytics d @ [\<lparr>click_id = Suc (fold max (map click_id (analytics d)) (analytics_seq d)),
                    short_id = sid, ip = Some i, user_agent = Some ua, country_code = Some cc,
                    referrer = Some rf, timestamp = now\<rparr>]"
  by (simp_all add: insert_click_def Let_def)

lemma clicks_of_append:
  "analytics d' = analytics d @ [e] \<Longrightarrow>
   clicks_of sid d' = clicks_of sid d @ (if short_id e = sid then [e] else [])"
  by (simp add: clicks_of_def)

text \<open>
  C6. A redirect of an identifier that no record has is answered with \<open>NotFound\<close> and
  leaves both tables as they were. A redirect of an identifier that a record has is
  answered with the redirect to the stored destination, and the store it leaves holds
  exactly one more click, under a new key: for that identifier, with the text of the
  request's address, user agent, country and referrer headers, each as received (empty
  where the header is absent), and the current time. The identifier then has one click more and every other identifier the clicks it
  had; in the list, the identifier's row counts one more than the clicks it had before.
\<close>

theorem redirect_records_one_click:
  "(param_id rq \<notin> set (map url_id (urls d)) \<longrightarrow>
      fst (redirect now rq d) = Inl NotFound
      \<and> analytics (snd (redirect now rq d)) = analytics d
      \<and> urls (snd (redirect now rq d)) = urls d)
   \<and> (find (\<lambda>u. url_id u = param_id rq) (urls d) = Some r \<longrightarrow>
      fst (redirect now rq d) = Inr (original_url r)
      \<and> urls (snd (redirect now rq d)) = urls d
      \<and> (\<exists>e. analytics (snd (redirect now rq d)) = analytics d @ [e]
            \<and> click_id e \<notin> set (map click_id (analytics d))
            \<and> short_id e = param_id rq
            \<and> ip e = Some (case cf_connecting_ip rq of None \<Rightarrow> [] | Some s \<Rightarrow> s)
            \<and> user_agent e = Some (case user_agent_header rq of None \<Rightarrow> [] | Some s \<Rightarrow> s)
            \<and> country_code e = Some (case cf_ipcountry rq of None \<Rightarrow> [] | Some s \<Rightarrow> s)
            \<and> referrer e = Some (case referer rq of None \<Rightarrow> [] | Some s \<Rightarrow> s)
            \<and> timestamp e = now)
      \<and> length (clicks_of (param_id rq) (snd (redirect now rq d)))
           = Suc (length (clicks_of (param_id rq) d))
      \<and> (sid \<noteq> param_id rq \<longrightarrow> clicks_of sid (snd (redirect now rq d)) = clicks_of sid d)
      \<and> (distinct (map url_id (urls d)) \<longrightarrow>
            (param_id rq, original_url r) \<in> set (group_keys (snd (redirect now rq d)))
          \<and> click_count (summary_of (snd (redirect now rq d)) (param_id rq, original_url r))
               = Suc (length (clicks_of (param_id rq) d))))"
proof (intro conjI impI)
  assume u: "param_id rq \<notin> set (map url_id (urls d))"
  show "fst (redirect now rq d) = Inl NotFound"
    and "analytics (snd (redirect now rq d)) = analytics d"
    and "urls (snd (redirect now rq d)) = urls d"
    by (simp_all add: redirect_unknown [OF u])
next
  assume f: "find (\<lambda>u. url_id u = param_id rq) (urls d) = Some r"
  let ?d = "snd (redirect now rq d)"
  let ?e = "\<lparr>click_id = Suc (fold max (map click_id (analytics d)) (analytics_seq d)),
             short_id = param_id rq, ip = Some (or_else (cf_connecting_ip rq) []),
             user_agent = Some (or_else (user_agent_header rq) []),
             country_code = Some (or_else (cf_ipcountry rq) []),
             referrer = Some (or_else (referer rq) []), timestamp = now\<rparr>"
  show "fst (redirect now rq d) = Inr (original_url r)"
    by (simp add: redirect_known [OF f])
  show us: "urls ?d = urls d"
    by (simp add: redirect_known [OF f] insert_click_tables)
  have an: "analytics ?d = analytics d @ [?e]"
    by (simp add: redirect_known [OF f] insert_click_tables)
  have fr: "click_id ?e \<notin> set (map click_id (analytics d))"
    by (simp only: click_row.select_convs) (rule next_key_fresh)
  show "\<exists>e. analytics ?d = analytics d @ [e]
            \<and> click_id e \<notin> set (map click_id (analytics d))
            \<and> short_id e = param_id rq
            \<and> ip e = Some (case cf_connecting_ip rq of None \<Rightarrow> [] | Some s \<Rightarrow> s)
            \<and> user_agent e = Some (case user_agent_header rq of None \<Rightarrow> [] | Some s \<Rightarrow> s)
            \<and> country_code e = Some (case cf_ipcountry rq of None \<Rightarrow> [] | Some s \<Rightarrow> s)
            \<and> referrer e = Some (case referer rq of None \<Rightarrow> [] | Some s \<Rightarrow> s)
            \<and> timestamp e = now"
    using an fr by (intro exI [of _ ?e]) (simp add: header_or_empty)
  show len: "length (clicks_of (param_id rq) ?d) = Suc (length (clicks_of (param_id rq) d))"
    by (simp add: clicks_of_append [OF an])
  show "clicks_of sid ?d = clicks_of sid d" if "sid \<noteq> param_id rq"
    using that by (simp add: clicks_of_append [OF an])
  assume dist: "distinct (map url_id (urls d))"
  then have dist': "distinct (map url_id (urls ?d))"
    by (simp add: us)
  have "fst (param_id rq, original_url r) \<in> set (map short_id (analytics ?d))"
    by (simp add: an)
  then show k: "(param_id rq, original_url r) \<in> set (group_keys ?d)"
    using f by (simp add: group_keys_iff [OF dist'] us)
  from summary_of_key(3) [OF dist' k] len
  show "click_count (summary_of ?d (param_id rq, original_url r))
               = Suc (length (clicks_of (param_id rq) d))"
    by simp
qed

lemma example_redirect_click:
  "analytics (snd (redirect 500 (example_redirect ''promo'') example_db))
     = analytics example_db @
       [\<lparr>click_id = 4, short_id = ''promo'', ip = Some ''198.51.100.9'', user_agent = Some [],
         country_code = Some ''IN'', referrer = Some [], timestamp = 500\<rparr>]"
  by code_simp

theorem redirect_records_one_click_witness:
  "fst (redirect 500 (example_redirect ''nothere'') example_db) = Inl NotFound
   \<and> analytics (snd (redirect 500 (example_redirect ''nothere'') example_db)) = analytics example_db
   \<and> fst (redirect 500 (example_redirect ''promo'') example_db) = Inr ''https://z.example''
   \<and> length (clicks_of ''promo'' (snd (redirect 500 (example_redirect ''promo'') example_db))) = 2
   \<and> click_count (summary_of (snd (redirect 500 (example_redirect ''promo'') example_db))
        (''promo'', ''https://z.example'')) = 2
   \<and> (\<exists>e. analytics (snd (redirect 500 (example_redirect ''promo'') example_db))
            = analytics example_db @ [e]
          \<and> short_id e = ''promo'' \<and> ip e = Some ''198.51.100.9'' \<and> user_agent e = Some []
          \<and> country_code e = Some ''IN'' \<and> referrer e = Some [] \<and> timestamp e = 500)
   \<and> ip (last (analytics (snd (redirect 500 (example_redirect ''promo'') example_db))))
        = Some ''198.51.100.9''
   \<and> country_code (last (analytics (snd (redirect 500 (example_redirect ''promo'') example_db))))
        = Some ''IN''"
proof -
  let ?r = "\<lparr>url_id = ''promo'', original_url = ''https://z.example'', created_at = 11\<rparr>"
  have n: "param_id (example_redirect ''nothere'') \<notin> set (map url_id (urls example_db))"
    by (simp add: example_redirect_def example_db_def)
  have f: "find (\<lambda>u. url_id u = param_id (example_redirect ''promo'')) (urls example_db) = Some ?r"
    by (simp add: example_redirect_def example_db_def)
  have d: "distinct (map url_id (urls example_db))"
    by (simp add: example_db_def)
  have c: "length (clicks_of ''promo'' example_db) = 1"
    by (simp add: clicks_of_def example_db_def example_click_def)
  have p: "param_id (example_redirect i) = i" for i
    by (simp add: example_redirect_def)
  have h: "cf_connecting_ip (example_redirect i) = Some ''198.51.100.9''"
    "user_agent_header (example_redirect i) = None"
    "cf_ipcountry (example_redirect i) = Some ''IN''"
    "referer (example_redirect i) = None" for i
    by (simp_all add: example_redirect_def)
  have l: "ip (last (analytics (snd (redirect 500 (example_redirect ''promo'') example_db))))
             = Some ''198.51.100.9''
         \<and> country_code (last (analytics (snd (redirect 500 (example_redirect ''promo'') example_db))))
             = Some ''IN''"
    by (simp add: example_redirect_click)
  show ?thesis
    using redirect_records_one_click [of "example_redirect ''nothere''" example_db 500 ?r "''x''"]
          redirect_records_one_click [of "example_redirect ''promo''" example_db 500 ?r "''x''"]
          n f d c l
    by (auto simp: p h)
qed

section \<open>Purging\<close>

lemma filter_no_match:
  "set is \<inter> set (map f xs) = {} \<Longrightarrow> filter (\<lambda>x. f x \<notin> set is) xs = xs"
  by (induction xs) auto

lemma purge_empty:
  "authorized api_key (purge_authorization rq) \<Longrightarrow> ids rq = None \<or> ids rq = Some [] \<Longrightarrow>
   purge api_key fault rq d = (Inl InvalidInput, d)"
  by (auto simp: purge_def)

lemma purge_commit:
  "authorized api_key (purge_authorization rq) \<Longrightarrow> ids rq = Some is \<Longrightarrow> is \<noteq> [] \<Longrightarrow>
   fault \<noteq> Some 0 \<Longrightarrow> fault \<noteq> Some 1 \<Longrightarrow>
   purge api_key fault rq d =
     (Inr is, delete_urls_in is (delete_analytics_in is (issue (DeleteBatch is) d)))"
  by (cases fault) (auto simp add: purge_def batch_def)

lemma purge_abort:
  "authorized api_key (purge_authorization rq) \<Longrightarrow> ids rq = Some is \<Longrightarrow> is \<noteq> [] \<Longrightarrow>
   fault = Some 0 \<or> fault = Some 1 \<Longrightarrow>
   purge api_key fault rq d = (Inl Internal, issue (DeleteBatch is) d)"
  by (auto simp add: purge_def batch_def)

lemma deleted_tables:
  "analytics (delete_urls_in is (delete_analytics_in is d)) = filter (\<lambda>a. short_id a \<notin> set is) (analytics d)"
  "urls (delete_urls_in is (delete_analytics_in is d)) = filter (\<lambda>u. url_id u \<notin> set is) (urls d)"
  by (simp_all add: delete_analytics_in_def delete_urls_in_def)

text \<open>
  C5. For a purge request that passes the credential check: with \<open>ids\<close> missing or empty
  the answer is \<open>InvalidInput\<close> and the store is handed back as it was. Otherwise both
  deletions go to the store as one batch. When the store does not fail, the answer is
  success with the ids as received, and exactly the clicks whose \<open>short_id\<close> and the
  records whose \<open>id\<close> is among them are gone. When the store fails at either statement,
  neither table has changed. Ids that match no row change nothing and are still answered
  with success.
\<close>

theorem purge_all_or_nothing:
  assumes "authorized api_key (purge_authorization rq)"
  shows "(ids rq = None \<or> ids rq = Some [] \<longrightarrow> purge api_key fault rq d = (Inl InvalidInput, d))
     \<and> (\<forall>is. ids rq = Some is \<and> is \<noteq> [] \<longrightarrow>
          (fault \<noteq> Some 0 \<and> fault \<noteq> Some 1 \<longrightarrow>
             fst (purge api_key fault rq d) = Inr is
           \<and> analytics (snd (purge api_key fault rq d))
               = filter (\<lambda>a. short_id a \<notin> set is) (analytics d)
           \<and> urls (snd (purge api_key fault rq d))
               = filter (\<lambda>u. url_id u \<notin> set is) (urls d))
        \<and> (fault = Some 0 \<or> fault = Some 1 \<longrightarrow>
             fst (purge api_key fault rq d) = Inl Internal
           \<and> analytics (snd (purge api_key fault rq d)) = analytics d
           \<and> urls (snd (purge api_key fault rq d)) = urls d)
        \<and> (fault \<noteq> Some 0 \<and> fault \<noteq> Some 1
             \<and> set is \<inter> set (map short_id (analytics d)) = {}
             \<and> set is \<inter> set (map url_id (urls d)) = {} \<longrightarrow>
             fst (purge api_key fault rq d) = Inr is
           \<and> analytics (snd (purge api_key fault rq d)) = analytics d
           \<and> urls (snd (purge api_key fault rq d)) = urls d))"
proof (intro conjI allI impI)
  assume "ids rq = None \<or> ids rq = Some []"
  with assms show "purge api_key fault rq d = (Inl InvalidInput, d)"
    by (rule purge_empty)
next
  fix "is"
  assume i: "ids rq = Some is \<and> is \<noteq> []" and f: "fault \<noteq> Some 0 \<and> fault \<noteq> Some 1"
  then have p: "purge api_key fault rq d =
      (Inr is, delete_urls_in is (delete_analytics_in is (issue (DeleteBatch is) d)))"
    using assms by (simp add: purge_commit)
  show "fst (purge api_key fault rq d) = Inr is"
    by (simp add: p)
  show "analytics (snd (purge api_key fault rq d)) = filter (\<lambda>a. short_id a \<notin> set is) (analytics d)"
    by (simp add: p deleted_tables)
  show "urls (snd (purge api_key fault rq d)) = filter (\<lambda>u. url_id u \<notin> set is) (urls d)"
    by (simp add: p deleted_tables)
next
  fix "is"
  assume i: "ids rq = Some is \<and> is \<noteq> []" and f: "fault = Some 0 \<or> fault = Some 1"
  then have p: "purge api_key fault rq d = (Inl Internal, issue (DeleteBatch is) d)"
    using assms by (simp add: purge_abort)
  show "fst (purge api_key fault rq d) = Inl Internal"
    and "analytics (snd (purge api_key fault rq d)) = analytics d"
    and "urls (snd (purge api_key fault rq d)) = urls d"
    by (simp_all add: p)
next
  fix "is"
  assume i: "ids rq = Some is \<and> is \<noteq> []"
    and f: "fault \<noteq> Some 0 \<and> fault \<noteq> Some 1
             \<and> set is \<inter> set (map short_id (analytics d)) = {}
             \<and> set is \<inter> set (map url_id (urls d)) = {}"
  then have p: "purge api_key fault rq d =
      (Inr is, delete_urls_in is (delete_analytics_in is (issue (DeleteBatch is) d)))"
    using assms by (simp add: purge_commit)
  show "fst (purge api_key fault rq d) = Inr is"
    by (simp add: p)
  show "analytics (snd (purge api_key fault rq d)) = analytics d"
    using f by (simp add: p deleted_tables filter_no_match)
  show "urls (snd (purge api_key fault rq d)) = urls d"
    using f by (simp add: p deleted_tables filter_no_match)
qed

theorem purge_all_or_nothing_witness:
  "authorized ''s3cret'' (purge_authorization (example_purge (Some [''promo'', ''nothere''])))
   \<and> purge ''s3cret'' None (example_purge (Some [])) example_db = (Inl InvalidInput, example_db)
   \<and> fst (purge ''s3cret'' None (example_purge (Some [''promo'', ''nothere''])) example_db)
       = Inr [''promo'', ''nothere'']
   \<and> map url_id (urls (snd (purge ''s3cret'' None (example_purge (Some [''promo'', ''nothere''])) example_db)))
       = [''abc1234'']
   \<and> map click_id (analytics (snd (purge ''s3cret'' None (example_purge (Some [''promo'', ''nothere''])) example_db)))
       = [1, 3]
   \<and> fst (purge ''s3cret'' (Some 1) (example_purge (Some [''promo'', ''nothere''])) example_db)
       = Inl Internal
   \<and> analytics (snd (purge ''s3cret'' (Some 1) (example_purge (Some [''promo'', ''nothere''])) example_db))
       = analytics example_db"
proof -
  have a: "authorized ''s3cret'' (purge_authorization (example_purge is))" for "is"
    by (simp add: example_purge_def example_authorized)
  have i: "ids (example_purge is) = is" for "is"
    by (simp add: example_purge_def)
  have u: "map url_id (filter (\<lambda>u. url_id u \<notin> set [''promo'', ''nothere'']) (urls example_db)) = [''abc1234'']"
    by (simp add: example_db_def)
  have c: "map click_id (filter (\<lambda>a. short_id a \<notin> set [''promo'', ''nothere'']) (analytics example_db)) = [1, 3]"
    by (simp add: example_db_def example_click_def)
  show ?thesis
    using purge_all_or_nothing [OF a, of "Some []" None example_db]
          purge_all_or_nothing [OF a, of "Some [''promo'', ''nothere'']" None example_db]
          purge_all_or_nothing [OF a, of "Some [''promo'', ''nothere'']" "Some 1" example_db]
          a u c
    by (simp add: i)
qed

section \<open>The store stays well formed\<close>

text \<open>
  No handler breaks the keys: starting from the empty store, every store the handlers
  produce has distinct record ids and distinct click keys, and \<^verbatim>\<open>POST /create\<close> stores no
  empty destination. The list and the detail only read.
\<close>

lemma wf_db_issue [simp]: "wf_db (issue s d) = wf_db d"
  by (simp add: wf_db_def)

lemma wf_db_empty: "wf_db empty_db"
  by (simp add: wf_db_def empty_db_def)

lemma create_tables:
  "analytics (snd (create parses fresh now rq d)) = analytics d
   \<and> analytics_seq (snd (create parses fresh now rq d)) = analytics_seq d
   \<and> (urls (snd (create parses fresh now rq d)) = urls d
      \<or> (\<exists>i u. i \<notin> set (map url_id (urls d)) \<and> present (url rq) = Some u
            \<and> urls (snd (create parses fresh now rq d))
                = urls d @ [\<lparr>url_id = i, original_url = u, created_at = now\<rparr>]))"
  by (auto simp: create_def select_id_by_id_def select_id_by_original_url_def
        create_insert_def insert_url_def Let_def split: body_kind.splits option.splits)

lemma create_wf:
  assumes "wf_db d"
  shows "wf_db (snd (create parses fresh now rq d))"
  using assms create_tables [of parses fresh now rq d]
  by (auto simp: wf_db_def)

lemma create_stores_nonempty:
  assumes "list_all (\<lambda>r. original_url r \<noteq> []) (urls d)"
  shows "list_all (\<lambda>r. original_url r \<noteq> []) (urls (snd (create parses fresh now rq d)))"
proof -
  have "present v = Some u \<Longrightarrow> u \<noteq> []" for v u
    by (cases v) (auto split: if_splits)
  with assms create_tables [of parses fresh now rq d] show ?thesis
    by auto
qed

lemma insert_click_wf:
  assumes "wf_db d"
  shows "wf_db (insert_click sid i ua cc rf now d)"
proof -
  let ?k = "Suc (fold max (map click_id (analytics d)) (analytics_seq d))"
  have "\<forall>a \<in> set (analytics d). click_id a \<le> ?k"
    using fold_max_ge [of "analytics_seq d" "map click_id (analytics d)"] by auto
  moreover have "?k \<notin> set (map click_id (analytics d))"
    by (rule next_key_fresh)
  ultimately show ?thesis
    using assms by (simp add: wf_db_def insert_click_def Let_def list_all_iff)
qed

lemma redirect_wf:
  assumes "wf_db d"
  shows "wf_db (snd (redirect now rq d))"
  using assms
  by (auto simp: redirect_def select_original_url_def insert_click_wf split: option.splits)

lemma purge_wf:
  assumes "wf_db d"
  shows "wf_db (snd (purge api_key fault rq d))"
proof (cases "authorized api_key (purge_authorization rq)")
  case False
  with assms show ?thesis
    by (simp add: purge_def)
next
  case True
  show ?thesis
  proof (cases "ids rq = None \<or> ids rq = Some []")
    case True
    with assms purge_empty [OF \<open>authorized api_key (purge_authorization rq)\<close> True]
    show ?thesis by simp
  next
    case False
    then obtain "is" where i: "ids rq = Some is" "is \<noteq> []"
      by auto
    have del: "wf_db (delete_urls_in is (delete_analytics_in is (issue (DeleteBatch is) d)))"
      using assms
      by (auto simp: wf_db_def delete_urls_in_def delete_analytics_in_def distinct_map_filter
            list_all_iff)
    show ?thesis
    proof (cases "fault = Some 0 \<or> fault = Some 1")
      case True
      with assms purge_abort [OF \<open>authorized api_key (purge_authorization rq)\<close> i True]
      show ?thesis by simp
    next
      case False
      with del purge_commit [OF \<open>authorized api_key (purge_authorization rq)\<close> i]
      show ?thesis by simp
    qed
  qed
qed

lemma analytics_list_reads_only:
  "urls (snd (analytics_list api_key rq d)) = urls d
   \<and> analytics (snd (analytics_list api_key rq d)) = analytics d"
  by (auto simp: analytics_list_def count_distinct_short_id_def select_summary_def Let_def
        split: option.splits prod.splits sum.splits)

end
